theory Spec2Isabelle
  imports Complex_Main
begin

section \<open>Batch transcode orchestrator (av1-converter-v2.5.py)\<close>

text \<open>
  A shallow embedding of \<^verbatim>\<open>ConversionThread\<close> and of the clamping getters of
  \<^verbatim>\<open>VideoConverterApp\<close>. Python \<^verbatim>\<open>str\<close> is \<open>string\<close> (ASCII), Python \<^verbatim>\<open>int\<close> is
  \<open>int\<close>, and Python \<^verbatim>\<open>float\<close> is idealised as an exact \<open>real\<close>. Binary
  rounding is not modelled: where an exact quotient is an integer, the doubles of the
  code can fall just below it (\<^verbatim>\<open>int(29/100*100.0)\<close> is 28, the exact value is 29). The
  properties proved below are bounds and inequalities that rounding, being monotone,
  preserves, and concrete values are stated only where doubles give the same result.
  Infinite and not-a-number floats are outside the model.
\<close>

subsection \<open>Python built-ins used by the source\<close>

definition is_space :: "char \<Rightarrow> bool" where
  \<comment> \<open>The whitespace of \<^verbatim>\<open>str\<close> within ASCII: space, tab, line feed, vertical tab, form
      feed, carriage return and the four separators 0x1C to 0x1F.\<close>
  "is_space c =
     (c \<in> set [CHR 0x20, CHR 0x09, CHR 0x0A, CHR 0x0B, CHR 0x0C, CHR 0x0D,
                CHR 0x1C, CHR 0x1D, CHR 0x1E, CHR 0x1F])"

definition strip :: "string \<Rightarrow> string" where
  \<comment> \<open>\<^verbatim>\<open>str.strip()\<close>\<close>
  "strip s = rev (dropWhile is_space (rev (dropWhile is_space s)))"

fun split_acc :: "string \<Rightarrow> string \<Rightarrow> string list" where
  "split_acc [] cur = (if cur = [] then [] else [rev cur])"
| "split_acc (c # cs) cur =
     (if is_space c then (if cur = [] then split_acc cs [] else rev cur # split_acc cs [])
      else split_acc cs (c # cur))"

definition split_ws :: "string \<Rightarrow> string list" where
  \<comment> \<open>\<^verbatim>\<open>str.split()\<close> without arguments: maximal runs of non-whitespace.\<close>
  "split_ws s = split_acc s []"

fun lines_acc :: "string \<Rightarrow> string \<Rightarrow> string list" where
  "lines_acc [] cur = (if cur = [] then [] else [rev cur])"
| "lines_acc (c # cs) cur =
     (if c \<in> set [CHR 0x0A, CHR 0x0B, CHR 0x0C, CHR 0x1C, CHR 0x1D, CHR 0x1E]
      then rev cur # lines_acc cs []
      else if c = CHR 0x0D then
        (case cs of
           [] \<Rightarrow> [rev cur]
         | d # ds \<Rightarrow> if d = CHR 0x0A then rev cur # lines_acc ds [] else rev cur # lines_acc cs [])
      else lines_acc cs (c # cur))"

definition splitlines :: "string \<Rightarrow> string list" where
  \<comment> \<open>\<^verbatim>\<open>str.splitlines()\<close> with the line boundaries of ASCII text: LF, CR LF, CR, VT, FF
      and the separators 0x1C, 0x1D and 0x1E.\<close>
  "splitlines s = lines_acc s []"

definition dict_get :: "('k \<times> 'v) list \<Rightarrow> 'k \<Rightarrow> 'v \<Rightarrow> 'v" where
  \<comment> \<open>\<^verbatim>\<open>d.get(key, default)\<close>, the dictionary given by its items\<close>
  "dict_get d k dflt = (case map_of d k of Some v \<Rightarrow> v | None \<Rightarrow> dflt)"

definition lower_char :: "char \<Rightarrow> char" where
  "lower_char c =
     dict_get (zip ''ABCDEFGHIJKLMNOPQRSTUVWXYZ'' ''abcdefghijklmnopqrstuvwxyz'') c c"

definition lower :: "string \<Rightarrow> string" where
  \<comment> \<open>\<^verbatim>\<open>str.lower()\<close> on ASCII text.\<close>
  "lower s = map lower_char s"

definition upper_char :: "char \<Rightarrow> char" where
  "upper_char c =
     dict_get (zip ''abcdefghijklmnopqrstuvwxyz'' ''ABCDEFGHIJKLMNOPQRSTUVWXYZ'') c c"

definition upper :: "string \<Rightarrow> string" where
  \<comment> \<open>\<^verbatim>\<open>str.upper()\<close> on ASCII text.\<close>
  "upper s = map upper_char s"

definition digit_char :: "nat \<Rightarrow> char" where
  "digit_char d = ''0123456789'' ! d"

fun str_nat :: "nat \<Rightarrow> string" where
  "str_nat n = (if n < 10 then [digit_char n] else str_nat (n div 10) @ [digit_char (n mod 10)])"

declare str_nat.simps [simp del]

definition str_int :: "int \<Rightarrow> string" where
  \<comment> \<open>\<^verbatim>\<open>str(i)\<close> for an \<^verbatim>\<open>int\<close>: decimal digits, a leading minus sign when negative.\<close>
  "str_int i = (if i < 0 then CHR ''-'' # str_nat (nat (- i)) else str_nat (nat i))"

definition digit_of_char :: "char \<Rightarrow> nat option" where
  "digit_of_char c =
     (if 48 \<le> (of_char c :: nat) \<and> (of_char c :: nat) \<le> 57 then Some (of_char c - 48) else None)"

fun nat_of_digits :: "nat \<Rightarrow> string \<Rightarrow> nat option" where
  \<comment> \<open>Decimal digits, where a single underscore may stand between two digits.\<close>
  "nat_of_digits acc [] = Some acc"
| "nat_of_digits acc (c # cs) =
     (if c = CHR ''_'' then
        (case cs of
           [] \<Rightarrow> None
         | d # ds \<Rightarrow> if digit_of_char d = None then None else nat_of_digits acc cs)
      else
        (case digit_of_char c of None \<Rightarrow> None | Some d \<Rightarrow> nat_of_digits (10 * acc + d) cs))"

definition py_digits :: "string \<Rightarrow> nat option" where
  \<comment> \<open>The digits after the sign: they start with a digit.\<close>
  "py_digits s =
     (case s of
        [] \<Rightarrow> None
      | c # cs \<Rightarrow> if digit_of_char c = None then None else nat_of_digits 0 s)"

definition py_int_of_str :: "string \<Rightarrow> int option" where
  \<comment> \<open>\<^verbatim>\<open>int(txt)\<close> on ASCII text: surrounding whitespace, an optional sign, and decimal
      digits with optional single underscores between them; \<open>None\<close> stands for the
      \<^verbatim>\<open>ValueError\<close>.\<close>
  "py_int_of_str txt =
     (case strip txt of
        [] \<Rightarrow> None
      | c # cs \<Rightarrow>
          if c = CHR ''-'' then map_option (\<lambda>n. - int n) (py_digits cs)
          else if c = CHR ''+'' then map_option int (py_digits cs)
          else map_option int (py_digits (c # cs)))"

definition py_int :: "real \<Rightarrow> int" where
  \<comment> \<open>\<^verbatim>\<open>int(x)\<close> for a \<^verbatim>\<open>float\<close>: truncation towards zero.\<close>
  "py_int x = (if 0 \<le> x then \<lfloor>x\<rfloor> else \<lceil>x\<rceil>)"

subsection \<open>Encoder enumeration and selection\<close>

datatype enum_result = EnumRaises | EnumOutput string

definition encoder_names :: "string list \<Rightarrow> string list" where
  \<comment> \<open>The loop over the output lines: a line starting with a space and having at least
      two fields contributes its second field.\<close>
  "encoder_names ls =
     concat (map (\<lambda>line.
        if line \<noteq> [] \<and> hd line = CHR 0x20
        then (let parts = split_ws line in if length parts \<ge> 2 then [parts ! 1] else [])
        else []) ls)"

definition available_encoders :: "enum_result \<Rightarrow> string list" where
  \<comment> \<open>The argument is what \<^verbatim>\<open>subprocess.check_output\<close> does: it raises, or it returns
      the (decoded) text.\<close>
  "available_encoders r =
     (case r of EnumRaises \<Rightarrow> [] | EnumOutput text \<Rightarrow> encoder_names (splitlines text))"

definition choose_encoder :: "string \<Rightarrow> string list \<Rightarrow> string" where
  \<comment> \<open>The first argument is \<^verbatim>\<open>self.codec\<close>.\<close>
  "choose_encoder codec encoders =
     (if codec = ''H.265'' then
        (if ''hevc_nvenc'' \<in> set encoders then ''hevc_nvenc'' else ''libx265'')
      else
        (if ''av1_nvenc'' \<in> set encoders then ''av1_nvenc''
         else if ''libsvtav1'' \<in> set encoders then ''libsvtav1''
         else ''libaom-av1''))"

subsection \<open>Preset mapping\<close>

definition preset_levels :: "string list" where
  \<comment> \<open>The nine UI preset labels, fastest first (the key order of both tables).\<close>
  "preset_levels =
     [''ultrafast'', ''superfast'', ''veryfast'', ''faster'', ''fast'',
      ''medium'', ''slow'', ''slower'', ''veryslow'']"

definition nvenc_map :: "(string \<times> string) list" where
  "nvenc_map =
     [(''ultrafast'', ''p1''), (''superfast'', ''p2''), (''veryfast'', ''p3''),
      (''faster'', ''p4''), (''fast'', ''p5''), (''medium'', ''p6''),
      (''slow'', ''p7''), (''slower'', ''p7''), (''veryslow'', ''p7'')]"

definition svt_map :: "(string \<times> string) list" where
  "svt_map =
     [(''ultrafast'', ''13''), (''superfast'', ''12''), (''veryfast'', ''10''),
      (''faster'', ''9''), (''fast'', ''8''), (''medium'', ''6''),
      (''slow'', ''4''), (''slower'', ''3''), (''veryslow'', ''2'')]"

definition is_nvenc :: "string \<Rightarrow> bool" where
  \<comment> \<open>\<^verbatim>\<open>encoder in ('hevc_nvenc', 'av1_nvenc')\<close>\<close>
  "is_nvenc encoder = (encoder \<in> set [''hevc_nvenc'', ''av1_nvenc''])"

definition map_preset :: "string \<Rightarrow> string \<Rightarrow> string" where
  "map_preset encoder ui_preset =
     (if is_nvenc encoder then dict_get nvenc_map ui_preset ''p6''
      else if encoder = ''libsvtav1'' then dict_get svt_map ui_preset ''6''
      else ui_preset)"

subsection \<open>Probing with a per-path cache\<close>

record ProbeInfo =
  duration :: real
  vcodec :: "string option"
  acodec :: "string option"
  audio_bitrate_kbps :: "real option"

datatype num_field = Missing | Unparsable | Num real
  \<comment> \<open>A numeric field of the probe's JSON as the code reads it. For \<^verbatim>\<open>bit_rate\<close>:
      \<open>Missing\<close> is an absent key or a null value (the code skips both), \<open>Unparsable\<close> a
      value on which \<^verbatim>\<open>float()\<close> raises. For the format's \<^verbatim>\<open>duration\<close>: \<open>Missing\<close> is an
      absent key only (the default 0.0 is taken), and \<open>Unparsable\<close> is any value on which
      \<^verbatim>\<open>float()\<close> raises, a null value included. \<open>Num\<close> carries a finite value.\<close>

record stream =
  codec_type :: "string option"
  codec_name :: "string option"
  bit_rate :: num_field

datatype ffprobe_result = ProbeRaises | ProbeJson "num_field option" "stream list"
  \<comment> \<open>What \<^verbatim>\<open>ffmpeg.probe(file)\<close> does: it raises, or it returns \<^verbatim>\<open>info\<close>, of which the
      model keeps \<^verbatim>\<open>info['format']\<close> (\<open>None\<close>: no such key; otherwise its \<^verbatim>\<open>duration\<close>
      field) and \<^verbatim>\<open>info.get('streams', [])\<close>.\<close>

datatype message =
    SelectedEncoder string
  | UsingPreset string string
  | FfprobeFailed string
  | FileNotFound string
  | Converting string string "string option"
  | Completed string
  | ErrorConverting string

datatype signal =
    progress_updated int
  | log_message message string
  | per_file_label nat nat string int
  | finished

record state =
  probe_cache :: "string \<rightharpoonup> ProbeInfo"
  probe_calls :: "string list"
  is_running :: bool
  done_duration :: real

definition init_state :: state where
  \<comment> \<open>\<^verbatim>\<open>__init__\<close>; \<open>probe_calls\<close> records the invocations of the external probing tool,
      \<open>done_duration\<close> is the local variable of \<^verbatim>\<open>run\<close>.\<close>
  "init_state = \<lparr>probe_cache = Map.empty, probe_calls = [], is_running = True, done_duration = 0\<rparr>"

definition falsy :: "string option \<Rightarrow> bool" where
  \<comment> \<open>\<^verbatim>\<open>not s\<close> for an optional string\<close>
  "falsy s = (s = None \<or> s = Some [])"

definition stream_step ::
  "stream \<Rightarrow> string option \<times> string option \<times> real option \<Rightarrow> string option \<times> string option \<times> real option" where
  "stream_step st acc =
     (case acc of (v, a, ab) \<Rightarrow>
        (let v' = (if codec_type st = Some ''video'' \<and> falsy v then codec_name st else v)
         in if codec_type st = Some ''audio'' \<and> falsy a
            then (v', codec_name st,
                  (case bit_rate st of Missing \<Rightarrow> ab | Unparsable \<Rightarrow> None | Num br \<Rightarrow> Some (br / 1000)))
            else (v', a, ab)))"

definition sentinel :: ProbeInfo where
  "sentinel = \<lparr>duration = 0, vcodec = None, acodec = None, audio_bitrate_kbps = None\<rparr>"

definition probe_body :: "ffprobe_result \<Rightarrow> ProbeInfo option" where
  \<comment> \<open>The \<^verbatim>\<open>try\<close> block of \<^verbatim>\<open>probe\<close>; \<open>None\<close>: an exception reached the handler.\<close>
  "probe_body r =
     (case r of
        ProbeRaises \<Rightarrow> None
      | ProbeJson fmt ss \<Rightarrow>
          (case fmt of
             None \<Rightarrow> None
           | Some Unparsable \<Rightarrow> None
           | Some d \<Rightarrow>
               (case foldl (\<lambda>acc st. stream_step st acc) (None, None, None) ss of
                  (v, a, ab) \<Rightarrow>
                    Some \<lparr>duration = (case d of Num x \<Rightarrow> x | _ \<Rightarrow> 0),
                          vcodec = v, acodec = a, audio_bitrate_kbps = ab\<rparr>)))"

definition probe ::
  "(string \<Rightarrow> ffprobe_result) \<Rightarrow> string \<Rightarrow> state \<Rightarrow> ProbeInfo \<times> signal list \<times> state" where
  \<comment> \<open>Returns the result, the signals emitted and the state after the call.\<close>
  "probe tool file st =
     (case probe_cache st file of
        Some info \<Rightarrow> (info, [], st)
      | None \<Rightarrow>
          (let st1 = st\<lparr>probe_calls := probe_calls st @ [file]\<rparr>
           in case probe_body (tool file) of
                Some info \<Rightarrow> (info, [], st1\<lparr>probe_cache := (probe_cache st1)(file \<mapsto> info)\<rparr>)
              | None \<Rightarrow>
                  (sentinel, [log_message (FfprobeFailed file) ''red''],
                   st1\<lparr>probe_cache := (probe_cache st1)(file \<mapsto> sentinel)\<rparr>)))"

fun probe_all :: "(string \<Rightarrow> ffprobe_result) \<Rightarrow> string list \<Rightarrow> state \<Rightarrow> state" where
  \<comment> \<open>Any sequence of further \<^verbatim>\<open>probe\<close> calls.\<close>
  "probe_all tool [] st = st"
| "probe_all tool (f # fs) st = probe_all tool fs (snd (snd (probe tool f st)))"

subsection \<open>Command construction\<close>

record thread =
  files :: "string list"
  codec :: string
  container :: string
  rate_mode :: string
  bitrate_kbps :: "int option"
  crf_cq_value :: "int option"
  preset :: string
  crop_settings :: "string \<rightharpoonup> int \<times> int"
  audio_copy :: bool
  audio_codec :: string
  audio_bitrate :: int
  smart_copy_when_same_codec :: bool

datatype exn = ValueError string

definition rate_args :: "thread \<Rightarrow> string \<Rightarrow> exn + string list" where
  \<comment> \<open>The block under the comment \<^verbatim>\<open>Rate control\<close>.\<close>
  "rate_args cfg encoder =
     (if rate_mode cfg = ''bitrate'' then
        (case bitrate_kbps cfg of
           None \<Rightarrow> Inl (ValueError ''Invalid bitrate'')
         | Some k \<Rightarrow>
             if k \<le> 0 then Inl (ValueError ''Invalid bitrate'')
             else if is_nvenc encoder then
               (let b = str_int k @ ''k''
                in Inr [''-rc:v'', ''vbr'', ''-b:v'', b, ''-maxrate'', b,
                        ''-bufsize'', str_int (k * 2) @ ''k''])
             else Inr [''-b:v'', str_int k @ ''k''])
      else
        (let q = (case crf_cq_value cfg of None \<Rightarrow> 23 | Some v \<Rightarrow> if v \<ge> 0 then v else 23)
         in if is_nvenc encoder then Inr [''-rc:v'', ''vbr'', ''-cq:v'', str_int q]
            else if encoder = ''libsvtav1'' then Inr [''-crf'', str_int q, ''-b:v'', ''0'']
            else Inr [''-crf'', str_int q]))"

definition audio_args :: "thread \<Rightarrow> string list" where
  \<comment> \<open>The block under the comment \<^verbatim>\<open>Audio handling\<close>.\<close>
  "audio_args cfg =
     (if audio_copy cfg then [''-c:a'', ''copy'']
      else if audio_codec cfg = ''AAC'' then [''-c:a'', ''aac'', ''-b:a'', str_int (audio_bitrate cfg) @ ''k'']
      else if audio_codec cfg = ''Opus'' then [''-c:a'', ''libopus'', ''-b:a'', str_int (audio_bitrate cfg) @ ''k'']
      else [''-c:a'', ''copy''])"

definition desired_vcodec :: "thread \<Rightarrow> string" where
  "desired_vcodec cfg = (if codec cfg = ''AV1'' then ''av1'' else ''hevc'')"

definition in_vcodec :: "ProbeInfo \<Rightarrow> string" where
  \<comment> \<open>\<^verbatim>\<open>(pinfo.vcodec or '').lower()\<close>\<close>
  "in_vcodec pinfo = lower (case vcodec pinfo of None \<Rightarrow> [] | Some v \<Rightarrow> v)"

definition do_stream_copy :: "thread \<Rightarrow> ProbeInfo \<Rightarrow> bool" where
  "do_stream_copy cfg pinfo = (smart_copy_when_same_codec cfg \<and> in_vcodec pinfo = desired_vcodec cfg)"

definition input_args :: "thread \<Rightarrow> string \<Rightarrow> string list \<times> string list" where
  \<comment> \<open>What precedes and what follows \<^verbatim>\<open>-i file\<close> up to the codec options: the seek,
      the end time, the stream mapping and the container flags.\<close>
  "input_args cfg file =
     (let crop = crop_settings cfg file
      in ([''ffmpeg'', ''-hide_banner'', ''-nostats'']
            @ (case crop of None \<Rightarrow> [] | Some (s, e) \<Rightarrow> [''-ss'', str_int s]),
          (case crop of None \<Rightarrow> [] | Some (s, e) \<Rightarrow> [''-to'', str_int e])
            @ [''-map'', ''0'']
            @ (if upper (container cfg) = ''MP4'' then [''-movflags'', ''+faststart''] else [])))"

definition build_cmd ::
  "thread \<Rightarrow> string \<Rightarrow> string \<Rightarrow> string \<Rightarrow> ProbeInfo \<Rightarrow> string \<Rightarrow> exn + string list" where
  \<comment> \<open>The argument list \<^verbatim>\<open>cmd\<close> of one file, from \<^verbatim>\<open>Decide copy vs encode\<close> to the
      \<^verbatim>\<open>-progress\<close> option; \<open>Inl\<close> is the exception raised on the way.\<close>
  "build_cmd cfg encoder mapped_preset file pinfo out_path =
     (case input_args cfg file of (before, after) \<Rightarrow>
        (if do_stream_copy cfg pinfo then
           Inr (before @ [''-i'', file] @ after @ [''-c'', ''copy'']
                  @ [''-progress'', ''pipe:2'', out_path])
         else
           (case rate_args cfg encoder of
              Inl e \<Rightarrow> Inl e
            | Inr rate \<Rightarrow>
                Inr (before @ [''-i'', file] @ after
                       @ [''-c:v'', encoder, ''-preset'', mapped_preset] @ rate
                       @ audio_args cfg @ [''-c:s'', ''copy'']
                       @ [''-progress'', ''pipe:2'', out_path]))))"

subsection \<open>The batch loop and its progress arithmetic\<close>

datatype ff_event = Pct "real option" | Stop
  \<comment> \<open>What happens while one file is transcoded, in order: the tool yields a percentage
      (\<open>None\<close>: a value on which \<^verbatim>\<open>float()\<close> raises), or the user interface calls
      \<^verbatim>\<open>stop()\<close>.\<close>

record turn =
  stop_before :: bool
  file_exists :: bool
  makedirs_raises :: bool
  out_path :: string
  events :: "ff_event list"
  ff_raises :: bool

text \<open>
  A \<open>turn\<close> is what the environment does at one index of the batch: whether \<^verbatim>\<open>stop()\<close>
  was called before the loop reaches the index, whether the file exists then, whether
  creating the output directory raises, the output path computed from the file system
  and the clock, the events of the transcode, and whether the progress generator ends
  by raising (the tool could not be started, or it exited with an error).
\<close>

record world =
  ffprobe :: "string \<Rightarrow> ffprobe_result"
  enum_encoders :: enum_result
  turns :: "nat \<Rightarrow> turn"

definition basename :: "string \<Rightarrow> string" where
  \<comment> \<open>\<^verbatim>\<open>os.path.basename\<close> with the separator \<^verbatim>\<open>/\<close>\<close>
  "basename p = rev (takeWhile (\<lambda>c. c \<noteq> CHR ''/'') (rev p))"

definition clamp_pct :: "real \<Rightarrow> int" where
  \<comment> \<open>\<^verbatim>\<open>max(0, min(100, int(overall)))\<close>\<close>
  "clamp_pct overall = max 0 (min 100 (py_int overall))"

definition overall_pct :: "real \<Rightarrow> real \<Rightarrow> int \<Rightarrow> int \<Rightarrow> int" where
  \<comment> \<open>\<^verbatim>\<open>overall_int\<close> inside the progress loop, from the completed duration, the file's
      percentage, its target duration and the total duration.\<close>
  "overall_pct done_d pct_float target_dur total_duration =
     clamp_pct ((done_d + (pct_float / 100) * of_int target_dur) / of_int total_duration * 100)"

definition completed_pct :: "real \<Rightarrow> int \<Rightarrow> int" where
  \<comment> \<open>\<^verbatim>\<open>overall_int\<close> after a file is finished.\<close>
  "completed_pct done_d total_duration = clamp_pct (done_d / of_int total_duration * 100)"

definition pct_value :: "real option \<Rightarrow> real" where
  \<comment> \<open>\<^verbatim>\<open>pct_float\<close>: the value, or 0.0 when \<^verbatim>\<open>float(pct)\<close> raises\<close>
  "pct_value p = (case p of Some x \<Rightarrow> x | None \<Rightarrow> 0)"

fun progress_loop ::
  "real \<Rightarrow> int \<Rightarrow> int \<Rightarrow> nat \<times> nat \<times> string \<Rightarrow> ff_event list \<Rightarrow> bool \<Rightarrow> int \<Rightarrow> signal list \<times> bool \<times> bool" where
  \<comment> \<open>The loop over \<^verbatim>\<open>ff.run_command_with_progress()\<close>. Arguments: completed duration,
      target duration, total duration, the label's data, the remaining events, the flag
      \<^verbatim>\<open>_is_running\<close> and \<^verbatim>\<open>last_pct\<close>. Result: the signals, the flag, and whether the
      loop was left by \<^verbatim>\<open>break\<close>.\<close>
  "progress_loop d t tot lbl [] running last_pct = ([], running, False)"
| "progress_loop d t tot lbl (Stop # es) running last_pct =
     progress_loop d t tot lbl es False last_pct"
| "progress_loop d t tot lbl (Pct p # es) running last_pct =
     (if \<not> running then ([], False, True)
      else
        (let overall_int = overall_pct d (pct_value p) t tot
         in if overall_int \<noteq> last_pct then
              (case progress_loop d t tot lbl es running overall_int of
                 (sigs, r, b) \<Rightarrow>
                   (case lbl of (i, n, file) \<Rightarrow>
                      (progress_updated overall_int
                         # per_file_label i n (basename file) (py_int (pct_value p)) # sigs, r, b)))
            else progress_loop d t tot lbl es running last_pct))"

definition convert_file ::
  "thread \<Rightarrow> world \<Rightarrow> string \<Rightarrow> string \<Rightarrow> int list \<Rightarrow> int \<Rightarrow> nat \<Rightarrow> string \<Rightarrow> state \<Rightarrow> signal list \<times> state" where
  \<comment> \<open>The \<^verbatim>\<open>try\<close> statement of the batch loop with its handler.\<close>
  "convert_file cfg w encoder mapped_preset durations total_duration idx file st =
     (let t = turns w idx in
      case probe (ffprobe w) file st of (pinfo, psigs, st1) \<Rightarrow>
        (let target_dur = durations ! idx;
             failed = psigs @ [log_message (ErrorConverting file) ''red'']
         in if makedirs_raises t then (failed, st1)
            else
              (case build_cmd cfg encoder mapped_preset file pinfo (out_path t) of
                 Inl e \<Rightarrow> (failed, st1)
               | Inr cmd \<Rightarrow>
                   (let start = psigs @
                          [log_message
                             (Converting (basename file) (basename (out_path t))
                                (if do_stream_copy cfg pinfo then None else Some encoder)) ''black'']
                    in case progress_loop (done_duration st1) target_dur total_duration
                              (idx + 1, length (files cfg), file) (events t) (is_running st1) (- 1) of
                         (sigs, running, broke) \<Rightarrow>
                           (let st2 = st1\<lparr>is_running := running\<rparr>
                            in if \<not> broke \<and> ff_raises t then
                                 (start @ sigs @ [log_message (ErrorConverting file) ''red''], st2)
                               else if running then
                                 (let d = done_duration st2 + of_int target_dur
                                  in (start @ sigs @
                                        [progress_updated (completed_pct d total_duration),
                                         log_message (Completed (out_path t)) ''green''],
                                      st2\<lparr>done_duration := d\<rparr>))
                               else (start @ sigs, st2))))))"

fun run_files ::
  "thread \<Rightarrow> world \<Rightarrow> string \<Rightarrow> string \<Rightarrow> int list \<Rightarrow> int \<Rightarrow> nat \<Rightarrow> string list \<Rightarrow> state \<Rightarrow> signal list \<times> state" where
  \<comment> \<open>The batch loop from index \<open>idx\<close> over the remaining files.\<close>
  "run_files cfg w encoder mapped_preset durations total_duration idx [] st = ([], st)"
| "run_files cfg w encoder mapped_preset durations total_duration idx (file # rest) st =
     (let st0 = (if stop_before (turns w idx) then st\<lparr>is_running := False\<rparr> else st)
      in if \<not> is_running st0 then ([], st0)
         else if \<not> file_exists (turns w idx) then
           (case run_files cfg w encoder mapped_preset durations total_duration (Suc idx) rest st0 of
              (sigs, st') \<Rightarrow> (log_message (FileNotFound file) ''red'' # sigs, st'))
         else
           (case convert_file cfg w encoder mapped_preset durations total_duration idx file st0 of
              (sigs1, st1) \<Rightarrow>
                (case run_files cfg w encoder mapped_preset durations total_duration (Suc idx) rest st1 of
                   (sigs2, st2) \<Rightarrow> (sigs1 @ sigs2, st2))))"

definition target_duration :: "thread \<Rightarrow> string \<Rightarrow> ProbeInfo \<Rightarrow> int" where
  \<comment> \<open>The crop length when the file has a crop range, else \<^verbatim>\<open>int(p.duration or 0)\<close>.
      The duration is finite here: on an infinite or not-a-number duration \<^verbatim>\<open>int()\<close>
      raises outside any handler and the run ends without emitting any progress.\<close>
  "target_duration cfg f p =
     (case crop_settings cfg f of
        Some (s, e) \<Rightarrow> max 0 (e - s)
      | None \<Rightarrow> py_int (if duration p = 0 then 0 else duration p))"

fun build_durations ::
  "thread \<Rightarrow> world \<Rightarrow> string list \<Rightarrow> state \<Rightarrow> int list \<times> signal list \<times> state" where
  \<comment> \<open>The loop under the comment \<^verbatim>\<open>Build totals for progress\<close>.\<close>
  "build_durations cfg w [] st = ([], [], st)"
| "build_durations cfg w (f # fs) st =
     (case probe (ffprobe w) f st of (p, sigs, st1) \<Rightarrow>
        (case build_durations cfg w fs st1 of (ds, sigs', st2) \<Rightarrow>
           (target_duration cfg f p # ds, sigs @ sigs', st2)))"

definition total_of :: "int list \<Rightarrow> int" where
  \<comment> \<open>\<^verbatim>\<open>sum(durations) or 1\<close>\<close>
  "total_of durations = (if sum_list durations = 0 then 1 else sum_list durations)"

definition run :: "thread \<Rightarrow> world \<Rightarrow> state \<Rightarrow> signal list \<times> state" where
  "run cfg w st =
     (let encoder = choose_encoder (codec cfg) (available_encoders (enum_encoders w));
          mapped_preset = map_preset encoder (preset cfg)
      in case build_durations cfg w (files cfg) st of (durations, psigs, st1) \<Rightarrow>
           (case run_files cfg w encoder mapped_preset durations (total_of durations) 0 (files cfg)
                   (st1\<lparr>done_duration := 0\<rparr>) of
              (sigs, st2) \<Rightarrow>
                ([log_message (SelectedEncoder encoder) ''black'',
                  log_message (UsingPreset mapped_preset (preset cfg)) ''black'']
                   @ psigs @ sigs @ [finished],
                 st2\<lparr>is_running := False\<rparr>)))"

fun progress_values :: "signal list \<Rightarrow> int list" where
  \<comment> \<open>The values carried by the \<^verbatim>\<open>progress_updated\<close> signals, in order of emission.\<close>
  "progress_values [] = []"
| "progress_values (progress_updated v # sigs) = v # progress_values sigs"
| "progress_values (_ # sigs) = progress_values sigs"

subsection \<open>Clamping getters of the window\<close>








subsection \<open>Conditions on the environment\<close>

fun samples_ok :: "real \<Rightarrow> ff_event list \<Rightarrow> bool" where
  \<comment> \<open>The percentages of one transcode never decrease, start at \<open>lo\<close> or above and stay
      at 100 or below.\<close>
  "samples_ok lo [] = True"
| "samples_ok lo (Stop # es) = samples_ok lo es"
| "samples_ok lo (Pct p # es) = (lo \<le> pct_value p \<and> pct_value p \<le> 100 \<and> samples_ok (pct_value p) es)"

fun samples_le_100 :: "ff_event list \<Rightarrow> bool" where
  \<comment> \<open>No percentage of the transcode exceeds 100.\<close>
  "samples_le_100 [] = True"
| "samples_le_100 (Stop # es) = samples_le_100 es"
| "samples_le_100 (Pct p # es) = (pct_value p \<le> 100 \<and> samples_le_100 es)"

fun no_samples :: "ff_event list \<Rightarrow> bool" where
  \<comment> \<open>The transcode yields no percentage at all.\<close>
  "no_samples [] = True"
| "no_samples (Stop # es) = no_samples es"
| "no_samples (Pct p # es) = False"

definition durations_nonneg :: "world \<Rightarrow> bool" where
  \<comment> \<open>No probe reports a negative duration.\<close>
  "durations_nonneg w = (\<forall>f x ss. ffprobe w f = ProbeJson (Some (Num x)) ss \<longrightarrow> 0 \<le> x)"

definition clean_turn :: "turn \<Rightarrow> bool" where
  \<comment> \<open>The file is there, nothing raises and nobody calls \<^verbatim>\<open>stop()\<close>.\<close>
  "clean_turn t =
     (\<not> stop_before t \<and> file_exists t \<and> \<not> makedirs_raises t \<and> \<not> ff_raises t \<and> Stop \<notin> set (events t))"

subsection \<open>Example inputs\<close>

definition example_cfg :: thread where
  "example_cfg =
     \<lparr>files = [''/v/a.mp4'', ''/v/b.mp4''], codec = ''AV1'', container = ''MKV'',
      rate_mode = ''quality'', bitrate_kbps = None, crf_cq_value = Some 30, preset = ''medium'',
      crop_settings = Map.empty, audio_copy = True, audio_codec = ''AAC'', audio_bitrate = 128,
      smart_copy_when_same_codec = False\<rparr>"

definition example_turn :: turn where
  "example_turn =
     \<lparr>stop_before = False, file_exists = True, makedirs_raises = False, out_path = ''/v/out.mkv'',
      events = [Pct (Some 0), Pct (Some 50), Pct (Some 100)], ff_raises = False\<rparr>"

definition example_probe :: "string \<Rightarrow> ffprobe_result" where
  \<comment> \<open>The first file lasts 100 seconds, every other file 50 seconds.\<close>
  "example_probe f =
     (if f = ''/v/a.mp4'' then ProbeJson (Some (Num 100)) [] else ProbeJson (Some (Num 50)) [])"

definition example_world :: world where
  "example_world = \<lparr>ffprobe = example_probe, enum_encoders = EnumRaises, turns = (\<lambda>i. example_turn)\<rparr>"

definition failing_world :: world where
  \<comment> \<open>The transcode of the first file exits with an error after reporting 50 percent.\<close>
  "failing_world =
     example_world\<lparr>turns := (\<lambda>i. if i = 0
        then example_turn\<lparr>events := [Pct (Some 0), Pct (Some 50)], ff_raises := True\<rparr>
        else example_turn)\<rparr>"

definition missing_world :: world where
  \<comment> \<open>The second file is gone when its turn comes.\<close>
  "missing_world =
     example_world\<lparr>turns := (\<lambda>i. if i = 1 then example_turn\<lparr>file_exists := False\<rparr> else example_turn)\<rparr>"


definition copy_cfg :: thread where
  \<comment> \<open>Smart copy is on, the target is H.265, and the first file has a crop range.\<close>
  "copy_cfg =
     example_cfg\<lparr>codec := ''H.265'', container := ''mp4'', rate_mode := ''bitrate'',
       bitrate_kbps := Some 4000, crop_settings := [''/v/a.mp4'' \<mapsto> (10, 20)],
       smart_copy_when_same_codec := True\<rparr>"

definition hevc_info :: ProbeInfo where
  "hevc_info = \<lparr>duration = 100, vcodec = Some ''HEVC'', acodec = None, audio_bitrate_kbps = None\<rparr>"


section \<open>Properties\<close>

subsection \<open>Dictionaries\<close>

lemma dict_get_unknown:
  "k \<notin> fst ` set d \<Longrightarrow> dict_get d k dflt = dflt"
  by (simp add: dict_get_def map_of_eq_None_iff [THEN iffD2])

lemma nvenc_map_keys: "map fst nvenc_map = preset_levels"
  by (simp add: nvenc_map_def preset_levels_def)

lemma svt_map_keys: "map fst svt_map = preset_levels"
  by (simp add: svt_map_def preset_levels_def)

subsection \<open>Encoder selection and preset mapping: claims C6, C7, C8\<close>

lemma svt_tokens:
  "map (\<lambda>p. py_int_of_str (map_preset ''libsvtav1'' p)) preset_levels
     = map Some [13, 12, 10, 9, 8, 6, 4, 3, 2]"
  by (simp add: preset_levels_def map_preset_def is_nvenc_def dict_get_def svt_map_def
       py_int_of_str_def py_digits_def strip_def is_space_def digit_of_char_def)

text \<open>
  Claim C7. For the encoder \<^verbatim>\<open>libsvtav1\<close> the tokens of the nine preset levels, read
  as numbers, strictly decrease from \<^verbatim>\<open>ultrafast\<close> to \<^verbatim>\<open>veryslow\<close>: of two levels
  the faster one gets the greater number.
\<close>

theorem svt_preset_strictly_decreasing:
  assumes "i < j" and "j < length preset_levels"
  shows "\<exists>a b. py_int_of_str (map_preset ''libsvtav1'' (preset_levels ! i)) = Some a
             \<and> py_int_of_str (map_preset ''libsvtav1'' (preset_levels ! j)) = Some b
             \<and> b < a"
proof -
  let ?f = "\<lambda>p. py_int_of_str (map_preset ''libsvtav1'' p)"
  let ?ns = "[13, 12, 10, 9, 8, 6, 4, 3, 2] :: int list"
  have len: "length preset_levels = length ?ns"
    by (simp add: preset_levels_def)
  have at: "?f (preset_levels ! k) = Some (?ns ! k)" if "k < length preset_levels" for k
  proof -
    have "map ?f preset_levels ! k = map Some ?ns ! k"
      by (simp only: svt_tokens)
    with that len show ?thesis
      by (simp del: list.map)
  qed
  have dec: "sorted_wrt (\<lambda>x y. y < x) ?ns"
    by simp
  have jl: "j < length ?ns"
    using assms len by simp
  have "?ns ! j < ?ns ! i"
    using sorted_wrt_nth_less [OF dec \<open>i < j\<close> jl] by simp
  with at [of i] at [of j] assms show ?thesis
    by simp
qed

theorem svt_preset_strictly_decreasing_witness:
  "(0::nat) < 8 \<and> 8 < length preset_levels
   \<and> map_preset ''libsvtav1'' ''ultrafast'' = ''13''
   \<and> map_preset ''libsvtav1'' ''veryslow'' = ''2''
   \<and> (\<exists>a b. py_int_of_str ''13'' = Some a \<and> py_int_of_str ''2'' = Some b \<and> b < a)"
  using svt_preset_strictly_decreasing [of 0 8]
  by (simp add: preset_levels_def map_preset_def is_nvenc_def dict_get_def svt_map_def)

text \<open>
  Claim C6, amended. A preset string outside the nine levels is mapped to the token of
  \<^verbatim>\<open>medium\<close> for the two NVENC encoders (\<^verbatim>\<open>p6\<close>) and for \<^verbatim>\<open>libsvtav1\<close> (\<^verbatim>\<open>6\<close>);
  for every other encoder it is passed through unchanged. \<open>map_preset\<close> is a total
  function: no input makes it raise.
\<close>

theorem map_preset_unknown:
  assumes "ui \<notin> set preset_levels"
  shows "(is_nvenc enc \<longrightarrow> map_preset enc ui = ''p6'' \<and> map_preset enc ''medium'' = ''p6'')
       \<and> (enc = ''libsvtav1'' \<longrightarrow> map_preset enc ui = ''6'' \<and> map_preset enc ''medium'' = ''6'')
       \<and> (\<not> is_nvenc enc \<and> enc \<noteq> ''libsvtav1'' \<longrightarrow> map_preset enc ui = ui)"
proof -
  have nv: "dict_get nvenc_map ui ''p6'' = ''p6''"
    using assms by (simp add: dict_get_unknown nvenc_map_keys [symmetric])
  have sv: "dict_get svt_map ui ''6'' = ''6''"
    using assms by (simp add: dict_get_unknown svt_map_keys [symmetric])
  have "dict_get nvenc_map ''medium'' ''p6'' = ''p6''"
    by (simp add: dict_get_def nvenc_map_def)
  moreover have "dict_get svt_map ''medium'' ''6'' = ''6''"
    by (simp add: dict_get_def svt_map_def)
  ultimately show ?thesis
    using nv sv by (simp add: map_preset_def is_nvenc_def)
qed

theorem map_preset_unknown_witness:
  "''turbo'' \<notin> set preset_levels
   \<and> map_preset ''av1_nvenc'' ''turbo'' = ''p6''
   \<and> map_preset ''libsvtav1'' ''turbo'' = ''6''
   \<and> map_preset ''libaom-av1'' ''turbo'' = ''turbo''"
proof -
  have h: "''turbo'' \<notin> set preset_levels"
    by (simp add: preset_levels_def)
  show ?thesis
    using h map_preset_unknown [OF h, of "''av1_nvenc''"] map_preset_unknown [OF h, of "''libsvtav1''"]
      map_preset_unknown [OF h, of "''libaom-av1''"]
    by (simp add: is_nvenc_def)
qed

text \<open>
  The claim as stated fails for the pass-through encoders: with \<^verbatim>\<open>libx265\<close> an unknown
  preset is not mapped to what \<^verbatim>\<open>medium\<close> is mapped to.
\<close>

theorem map_preset_unknown_counterexample:
  "''turbo'' \<notin> set preset_levels
   \<and> map_preset ''libx265'' ''turbo'' \<noteq> map_preset ''libx265'' ''medium''"
  by (simp add: map_preset_def is_nvenc_def preset_levels_def)

text \<open>
  Claim C8. For \<^verbatim>\<open>AV1\<close> the choice is \<^verbatim>\<open>av1_nvenc\<close> if listed, else \<^verbatim>\<open>libsvtav1\<close> if
  listed, else \<^verbatim>\<open>libaom-av1\<close>; for \<^verbatim>\<open>H.265\<close> it is \<^verbatim>\<open>hevc_nvenc\<close> if listed, else
  \<^verbatim>\<open>libx265\<close>. A failed enumeration gives the empty list and hence the last fallback
  of the family, and the choice is always one of the five encoders.
\<close>

theorem choose_encoder_policy:
  "choose_encoder ''AV1'' encs =
     (if ''av1_nvenc'' \<in> set encs then ''av1_nvenc''
      else if ''libsvtav1'' \<in> set encs then ''libsvtav1'' else ''libaom-av1'')
   \<and> choose_encoder ''H.265'' encs =
     (if ''hevc_nvenc'' \<in> set encs then ''hevc_nvenc'' else ''libx265'')
   \<and> available_encoders EnumRaises = []
   \<and> choose_encoder ''AV1'' (available_encoders EnumRaises) = ''libaom-av1''
   \<and> choose_encoder ''H.265'' (available_encoders EnumRaises) = ''libx265''
   \<and> choose_encoder c encs \<in> set [''hevc_nvenc'', ''libx265'', ''av1_nvenc'', ''libsvtav1'', ''libaom-av1'']"
  by (simp add: choose_encoder_def available_encoders_def)

theorem choose_encoder_policy_witness:
  "choose_encoder ''AV1'' [''libx265'', ''libsvtav1'', ''libaom-av1''] = ''libsvtav1''
   \<and> choose_encoder ''H.265'' [''libx265'', ''libsvtav1'', ''libaom-av1''] = ''libx265''"
  using choose_encoder_policy [of "[''libx265'', ''libsvtav1'', ''libaom-av1'']" "''AV1''"]
  by simp

subsection \<open>Clamping getters: claim C4\<close>





subsection \<open>Probe cache: claim C9\<close>

lemma probe_cached:
  "probe_cache st file = Some info \<Longrightarrow> probe tool file st = (info, [], st)"
  by (simp add: probe_def)

lemma probe_fills_cache:
  assumes "probe tool file st = (info, sigs, st1)"
  shows "probe_cache st1 file = Some info"
proof (cases "probe_cache st file")
  case None
  with assms show ?thesis
    by (auto simp: probe_def Let_def split: option.splits)
next
  case (Some a)
  with assms show ?thesis
    by (simp add: probe_def)
qed

lemma probe_keeps_entry:
  assumes "probe_cache st file = Some info"
  shows "probe_cache (snd (snd (probe tool g st))) file = Some info"
proof (cases "probe_cache st g")
  case None
  with assms have "g \<noteq> file"
    by auto
  with None assms show ?thesis
    by (simp add: probe_def Let_def split: option.splits)
next
  case (Some a)
  with assms show ?thesis
    by (simp add: probe_def)
qed

lemma probe_all_keeps_entry:
  "probe_cache st file = Some info \<Longrightarrow> probe_cache (probe_all tool gs st) file = Some info"
  by (induction gs arbitrary: st) (simp_all add: probe_keeps_entry)

lemma probe_body_None_iff:
  "probe_body r = None \<longleftrightarrow>
     (r = ProbeRaises \<or> (\<exists>ss. r = ProbeJson None ss) \<or> (\<exists>ss. r = ProbeJson (Some Unparsable) ss))"
  by (auto simp: probe_body_def split: ffprobe_result.splits option.splits num_field.splits prod.splits)

text \<open>
  Claim C9. The \<^verbatim>\<open>try\<close> block of \<^verbatim>\<open>probe\<close> fails exactly when the tool raises, the
  \<^verbatim>\<open>format\<close> entry is missing or its duration is not a number. A failed probe of a path
  not yet cached returns the sentinel (duration 0, all other fields absent), emits one
  warning and caches the sentinel; the function has no exceptional result. Once a probe
  of a path has returned, after any further probes a probe of that path returns the same
  \<open>ProbeInfo\<close>, emits nothing and leaves the state as it is: the tool is not invoked
  again.
\<close>

theorem probe_sentinel_and_cache:
  "(probe_body r = None \<longleftrightarrow>
      (r = ProbeRaises \<or> (\<exists>ss. r = ProbeJson None ss) \<or> (\<exists>ss. r = ProbeJson (Some Unparsable) ss)))
   \<and> (probe_cache st path = None \<and> probe_body (tool path) = None \<longrightarrow>
        probe tool path st =
          (\<lparr>duration = 0, vcodec = None, acodec = None, audio_bitrate_kbps = None\<rparr>,
           [log_message (FfprobeFailed path) ''red''],
           st\<lparr>probe_calls := probe_calls st @ [path],
              probe_cache := (probe_cache st)(path \<mapsto> sentinel)\<rparr>))
   \<and> (probe tool path st = (info, sigs, st_after) \<longrightarrow>
        probe tool'' path (probe_all tool' gs st_after) = (info, [], probe_all tool' gs st_after))"
proof (intro conjI impI)
  show "probe_body r = None \<longleftrightarrow>
      (r = ProbeRaises \<or> (\<exists>ss. r = ProbeJson None ss) \<or> (\<exists>ss. r = ProbeJson (Some Unparsable) ss))"
    by (rule probe_body_None_iff)
next
  assume "probe_cache st path = None \<and> probe_body (tool path) = None"
  then show "probe tool path st =
          (\<lparr>duration = 0, vcodec = None, acodec = None, audio_bitrate_kbps = None\<rparr>,
           [log_message (FfprobeFailed path) ''red''],
           st\<lparr>probe_calls := probe_calls st @ [path],
              probe_cache := (probe_cache st)(path \<mapsto> sentinel)\<rparr>)"
    by (simp add: probe_def sentinel_def)
next
  assume "probe tool path st = (info, sigs, st_after)"
  then have "probe_cache st_after path = Some info"
    by (rule probe_fills_cache)
  then have "probe_cache (probe_all tool' gs st_after) path = Some info"
    by (rule probe_all_keeps_entry)
  then show "probe tool'' path (probe_all tool' gs st_after) = (info, [], probe_all tool' gs st_after)"
    by (rule probe_cached)
qed

theorem probe_sentinel_and_cache_witness:
  "probe_body ProbeRaises = None
   \<and> probe (\<lambda>f. ProbeRaises) ''/v/a.mp4'' init_state =
        (\<lparr>duration = 0, vcodec = None, acodec = None, audio_bitrate_kbps = None\<rparr>,
         [log_message (FfprobeFailed ''/v/a.mp4'') ''red''],
         init_state\<lparr>probe_calls := [''/v/a.mp4''], probe_cache := [''/v/a.mp4'' \<mapsto> sentinel]\<rparr>)
   \<and> probe example_probe ''/v/a.mp4''
         (probe_all example_probe [''/v/b.mp4'']
            (init_state\<lparr>probe_calls := [''/v/a.mp4''], probe_cache := [''/v/a.mp4'' \<mapsto> sentinel]\<rparr>)) =
        (\<lparr>duration = 0, vcodec = None, acodec = None, audio_bitrate_kbps = None\<rparr>, [],
         probe_all example_probe [''/v/b.mp4'']
            (init_state\<lparr>probe_calls := [''/v/a.mp4''], probe_cache := [''/v/a.mp4'' \<mapsto> sentinel]\<rparr>))"
proof -
  let ?st1 = "init_state\<lparr>probe_calls := [''/v/a.mp4''], probe_cache := [''/v/a.mp4'' \<mapsto> sentinel]\<rparr>"
  let ?s = "\<lparr>duration = 0, vcodec = None, acodec = None, audio_bitrate_kbps = None\<rparr>"
  have a: "probe_body ProbeRaises = None"
    by (simp add: probe_body_def)
  have b: "probe_cache init_state ''/v/a.mp4'' = None"
    by (simp add: init_state_def)
  have c: "probe (\<lambda>f. ProbeRaises) ''/v/a.mp4'' init_state =
             (?s, [log_message (FfprobeFailed ''/v/a.mp4'') ''red''], ?st1)"
    using a b
      probe_sentinel_and_cache [where r = ProbeRaises and tool = "\<lambda>f. ProbeRaises"
        and path = "''/v/a.mp4''" and st = init_state]
    by (simp add: init_state_def)
  show ?thesis
    using a c
      probe_sentinel_and_cache [where tool = "\<lambda>f. ProbeRaises" and path = "''/v/a.mp4''"
        and st = init_state and info = ?s and sigs = "[log_message (FfprobeFailed ''/v/a.mp4'') ''red'']"
        and st_after = ?st1 and tool' = example_probe and tool'' = example_probe and gs = "[''/v/b.mp4'']"]
    by simp
qed

subsection \<open>Command construction: claims C3 and C5\<close>

lemma digit_char_in: "d < 10 \<Longrightarrow> digit_char d \<in> set ''0123456789''"
  unfolding digit_char_def by (rule nth_mem) simp

lemma str_nat_unfold:
  "n < 10 \<Longrightarrow> str_nat n = [digit_char n]"
  "\<not> n < 10 \<Longrightarrow> str_nat n = str_nat (n div 10) @ [digit_char (n mod 10)]"
  by (subst str_nat.simps, simp)+

lemma str_nat_chars: "c \<in> set (str_nat n) \<Longrightarrow> c \<in> set ''0123456789''"
proof (induction n arbitrary: c rule: str_nat.induct)
  case (1 n)
  show ?case
  proof (cases "n < 10")
    case True
    from 1(2) have "c = digit_char n"
      by (simp add: str_nat_unfold(1) [OF True])
    with True show ?thesis
      by (simp only: digit_char_in)
  next
    case False
    from 1(2) have "c \<in> set (str_nat (n div 10)) \<or> c = digit_char (n mod 10)"
      by (auto simp: str_nat_unfold(2) [OF False])
    then show ?thesis
    proof
      assume "c \<in> set (str_nat (n div 10))"
      with False show ?thesis
        by (rule 1(1))
    next
      have "n mod 10 < 10"
        by simp
      moreover assume "c = digit_char (n mod 10)"
      ultimately show ?thesis
        by (simp only: digit_char_in)
    qed
  qed
qed


lemma str_int_chars: "c \<in> set (str_int i) \<Longrightarrow> c \<in> set ''-0123456789''"
proof (cases "i < 0")
  case True
  assume "c \<in> set (str_int i)"
  with True have "c = CHR ''-'' \<or> c \<in> set (str_nat (nat (- i)))"
    by (simp add: str_int_def)
  then show ?thesis
    using str_nat_chars [of c "nat (- i)"] by auto
next
  case False
  assume "c \<in> set (str_int i)"
  with False have "c \<in> set (str_nat (nat i))"
    by (simp add: str_int_def)
  then show ?thesis
    using str_nat_chars [of c "nat i"] by auto
qed

lemma str_int_neq: "c \<in> set t \<Longrightarrow> c \<notin> set ''-0123456789'' \<Longrightarrow> str_int i \<noteq> t"
  using str_int_chars [of c i] by blast

lemma str_int_neq_letters:
  "\<exists>c \<in> set t. c \<notin> set ''-0123456789'' \<Longrightarrow> str_int i \<noteq> t"
  using str_int_neq by blast

lemma str_int_not_flag:
  "str_int i \<noteq> ''-preset''" "str_int i \<noteq> ''-b:v''" "str_int i \<noteq> ''-maxrate''"
  "str_int i \<noteq> ''-bufsize''" "str_int i \<noteq> ''-cq:v''" "str_int i \<noteq> ''-crf''"
  "str_int i \<noteq> ''-rc:v''"
  by (rule str_int_neq_letters, simp)+


lemma input_args_no_flags:
  assumes "input_args cfg file = (before, after)"
    and "t \<in> set [''-preset'', ''-b:v'', ''-maxrate'', ''-bufsize'', ''-cq:v'', ''-crf'', ''-rc:v'']"
  shows "t \<notin> set before \<and> t \<notin> set after"
proof (cases "crop_settings cfg file")
  case None
  with assms show ?thesis
    by (auto simp: input_args_def)
next
  case (Some se)
  obtain s e where "se = (s, e)"
    by (cases se)
  with Some assms show ?thesis
    using str_int_not_flag [of s] str_int_not_flag [of e]
    by (auto simp: input_args_def)
qed



text \<open>
  Claim C3. When smart copy is enabled and the probed video codec, in lower case, equals
  the desired codec (\<^verbatim>\<open>av1\<close> or \<^verbatim>\<open>hevc\<close>), the command is built without error and
  consists of the input part, \<^verbatim>\<open>-i\<close> and the file, the seek end, mapping and container
  flags, then \<^verbatim>\<open>-c copy\<close>, and the progress option with the output path. None of
  \<^verbatim>\<open>-preset\<close>, \<^verbatim>\<open>-b:v\<close>, \<^verbatim>\<open>-maxrate\<close>, \<^verbatim>\<open>-bufsize\<close>, \<^verbatim>\<open>-cq:v\<close>, \<^verbatim>\<open>-crf\<close> occurs
  among its options. This holds with and without a crop range for the file.
\<close>

theorem stream_copy_cmd:
  assumes "smart_copy_when_same_codec cfg" and "in_vcodec pinfo = desired_vcodec cfg"
  shows "\<exists>before after.
           build_cmd cfg encoder mapped_preset file pinfo out
             = Inr (before @ [''-i'', file] @ after
                      @ [''-c'', ''copy'', ''-progress'', ''pipe:2'', out])
           \<and> set [''-preset'', ''-b:v'', ''-maxrate'', ''-bufsize'', ''-cq:v'', ''-crf'']
                \<inter> (set before \<union> set after) = {}"
proof -
  obtain before after where ia: "input_args cfg file = (before, after)"
    by (cases "input_args cfg file")
  have "build_cmd cfg encoder mapped_preset file pinfo out
          = Inr (before @ [''-i'', file] @ after @ [''-c'', ''copy'', ''-progress'', ''pipe:2'', out])"
    using assms ia by (simp add: build_cmd_def do_stream_copy_def)
  moreover have "t \<notin> set before \<union> set after"
    if "t \<in> set [''-preset'', ''-b:v'', ''-maxrate'', ''-bufsize'', ''-cq:v'', ''-crf'']" for t
  proof -
    from that
    have "t \<in> set [''-preset'', ''-b:v'', ''-maxrate'', ''-bufsize'', ''-cq:v'', ''-crf'', ''-rc:v'']"
      by auto
    with ia show ?thesis
      using input_args_no_flags by blast
  qed
  then have "set [''-preset'', ''-b:v'', ''-maxrate'', ''-bufsize'', ''-cq:v'', ''-crf'']
                \<inter> (set before \<union> set after) = {}"
    by blast
  ultimately show ?thesis
    by blast
qed

theorem stream_copy_cmd_witness:
  "smart_copy_when_same_codec copy_cfg \<and> in_vcodec hevc_info = desired_vcodec copy_cfg
   \<and> crop_settings copy_cfg ''/v/a.mp4'' = Some (10, 20)
   \<and> build_cmd copy_cfg ''libx265'' ''medium'' ''/v/a.mp4'' hevc_info ''/v/a_converted.mp4'' =
        Inr [''ffmpeg'', ''-hide_banner'', ''-nostats'', ''-ss'', ''10'', ''-i'', ''/v/a.mp4'',
             ''-to'', ''20'', ''-map'', ''0'', ''-movflags'', ''+faststart'', ''-c'', ''copy'',
             ''-progress'', ''pipe:2'', ''/v/a_converted.mp4'']"
proof -
  have a: "smart_copy_when_same_codec copy_cfg"
    by (simp add: copy_cfg_def example_cfg_def)
  have b: "in_vcodec hevc_info = desired_vcodec copy_cfg"
    by (simp add: copy_cfg_def example_cfg_def hevc_info_def in_vcodec_def desired_vcodec_def
          lower_def lower_char_def dict_get_def)
  have c: "input_args copy_cfg ''/v/a.mp4'' =
             ([''ffmpeg'', ''-hide_banner'', ''-nostats'', ''-ss'', ''10''],
              [''-to'', ''20'', ''-map'', ''0'', ''-movflags'', ''+faststart''])"
    by (simp add: copy_cfg_def example_cfg_def input_args_def upper_def upper_char_def dict_get_def
          str_int_def str_nat.simps digit_char_def)
  show ?thesis
    using a b c
      stream_copy_cmd [OF a b, of "''libx265''" "''medium''" "''/v/a.mp4''" "''/v/a_converted.mp4''"]
    by (simp add: build_cmd_def do_stream_copy_def copy_cfg_def example_cfg_def)
qed




subsection \<open>Progress arithmetic and the progress loop\<close>

lemma py_int_mono: "x \<le> y \<Longrightarrow> py_int x \<le> py_int y"
proof -
  assume xy: "x \<le> y"
  consider "0 \<le> x" | "x < 0" "y < 0" | "x < 0" "0 \<le> y"
    by linarith
  then show ?thesis
  proof cases
    case 1
    with xy show ?thesis
      by (simp add: py_int_def floor_mono)
  next
    case 2
    with xy show ?thesis
      by (simp add: py_int_def ceiling_mono)
  next
    case 3
    then have "\<lceil>x\<rceil> \<le> 0" and "0 \<le> \<lfloor>y\<rfloor>"
      by simp_all
    then have "\<lceil>x\<rceil> \<le> \<lfloor>y\<rfloor>"
      by (rule order_trans)
    with 3 show ?thesis
      by (simp add: py_int_def)
  qed
qed

lemma clamp_pct_mono: "x \<le> y \<Longrightarrow> clamp_pct x \<le> clamp_pct y"
  using py_int_mono [of x y] by (simp add: clamp_pct_def)

lemma clamp_pct_bounds: "0 \<le> clamp_pct x \<and> clamp_pct x \<le> 100"
  by (simp add: clamp_pct_def)

lemma completed_pct_mono:
  "0 < tot \<Longrightarrow> d \<le> d' \<Longrightarrow> completed_pct d tot \<le> completed_pct d' tot"
  unfolding completed_pct_def
  by (rule clamp_pct_mono) (simp add: divide_right_mono)

lemma overall_pct_completed:
  "overall_pct d p t tot = completed_pct (d + p / 100 * of_int t) tot"
  by (simp add: overall_pct_def completed_pct_def)

lemma overall_pct_mono:
  assumes "0 < tot" and "0 \<le> t" and "p \<le> q"
  shows "overall_pct d p t tot \<le> overall_pct d q t tot"
proof -
  have "p / 100 * of_int t \<le> q / 100 * of_int t"
    using assms by (simp add: mult_right_mono)
  then show ?thesis
    using assms(1) by (simp add: overall_pct_completed completed_pct_mono)
qed

lemma overall_pct_lower:
  assumes "0 < tot" and "0 \<le> t" and "0 \<le> p"
  shows "completed_pct d tot \<le> overall_pct d p t tot"
proof -
  have "0 \<le> p / 100 * of_int t"
    using assms by simp
  then show ?thesis
    using assms(1) by (simp add: overall_pct_completed completed_pct_mono)
qed

lemma overall_pct_upper:
  assumes "0 < tot" and "0 \<le> t" and "p \<le> 100"
  shows "overall_pct d p t tot \<le> completed_pct (d + of_int t) tot"
proof -
  have "p / 100 * of_int t \<le> 1 * of_int t"
    using assms by (intro mult_right_mono) simp_all
  then show ?thesis
    using assms(1) by (simp add: overall_pct_completed completed_pct_mono)
qed

lemma progress_values_append:
  "progress_values (xs @ ys) = progress_values xs @ progress_values ys"
  by (induction xs rule: progress_values.induct) simp_all

lemma loop_Pct:
  "progress_loop d t tot lbl (Pct p # es) running lp =
     (if \<not> running then ([], False, True)
      else if overall_pct d (pct_value p) t tot \<noteq> lp then
        (progress_updated (overall_pct d (pct_value p) t tot)
           # per_file_label (fst lbl) (fst (snd lbl)) (basename (snd (snd lbl))) (py_int (pct_value p))
           # fst (progress_loop d t tot lbl es running (overall_pct d (pct_value p) t tot)),
         snd (progress_loop d t tot lbl es running (overall_pct d (pct_value p) t tot)))
      else progress_loop d t tot lbl es running lp)"
  by (cases lbl) (simp add: Let_def split: prod.splits)

lemma loop_values_bounded:
  "v \<in> set (progress_values (fst (progress_loop d t tot lbl es running lp)))
     \<Longrightarrow> 0 \<le> v \<and> v \<le> 100"
proof (induction es arbitrary: running lp)
  case Nil
  then show ?case by simp
next
  case (Cons e es)
  show ?case
  proof (cases e)
    case Stop
    with Cons show ?thesis by simp
  next
    case (Pct p)
    have "0 \<le> overall_pct d (pct_value p) t tot \<and> overall_pct d (pct_value p) t tot \<le> 100"
      unfolding overall_pct_def by (rule clamp_pct_bounds)
    with Cons Pct show ?thesis
      by (auto simp del: progress_loop.simps(3) simp add: loop_Pct split: if_splits)
  qed
qed

lemma loop_flags:
  "(fst (snd (progress_loop d t tot lbl es running lp)) \<longrightarrow> running)
   \<and> (snd (snd (progress_loop d t tot lbl es running lp))
        \<longrightarrow> \<not> fst (snd (progress_loop d t tot lbl es running lp)))"
proof (induction es arbitrary: running lp)
  case Nil
  then show ?case by simp
next
  case (Cons e es)
  show ?case
  proof (cases e)
    case Stop
    with Cons [of False lp] show ?thesis by simp
  next
    case (Pct p)
    show ?thesis
    proof (cases running)
      case True
      with Pct Cons [of True] show ?thesis
        by (simp del: progress_loop.simps(3) add: loop_Pct)
    next
      case False
      with Pct show ?thesis
        by simp
    qed
  qed
qed

lemma loop_clean:
  "Stop \<notin> set es \<Longrightarrow> snd (progress_loop d t tot lbl es True lp) = (True, False)"
proof (induction es arbitrary: lp)
  case Nil
  then show ?case by simp
next
  case (Cons e es)
  then show ?case
    by (cases e) (simp_all del: progress_loop.simps(3) add: loop_Pct)
qed

lemma loop_no_samples:
  "no_samples es \<Longrightarrow> fst (progress_loop d t tot lbl es running lp) = []"
proof (induction es arbitrary: running)
  case (Cons e es)
  then show ?case
    by (cases e) simp_all
qed simp

lemma loop_sorted:
  assumes "0 < tot" and "0 \<le> t"
  shows "samples_ok lo es \<Longrightarrow>
     sorted (progress_values (fst (progress_loop d t tot lbl es running lp)))
     \<and> (\<forall>v \<in> set (progress_values (fst (progress_loop d t tot lbl es running lp))).
           overall_pct d lo t tot \<le> v)"
proof (induction es arbitrary: lo running lp)
  case Nil
  then show ?case by simp
next
  case (Cons e es)
  show ?case
  proof (cases e)
    case Stop
    with Cons show ?thesis by simp
  next
    case (Pct p)
    let ?q = "pct_value p"
    from Cons.prems Pct have lo: "lo \<le> ?q" and ok: "samples_ok ?q es"
      by simp_all
    have step: "overall_pct d lo t tot \<le> overall_pct d ?q t tot"
      using assms lo by (rule overall_pct_mono)
    note ih = Cons.IH [OF ok]
    show ?thesis
    proof (cases "running \<and> overall_pct d ?q t tot \<noteq> lp")
      case False
      have "\<forall>v \<in> set (progress_values (fst (progress_loop d t tot lbl es running lp))).
              overall_pct d lo t tot \<le> v"
        using ih [of running lp] step by fastforce
      with ih [of running lp] Pct False show ?thesis
        by (auto simp del: progress_loop.simps(3) simp add: loop_Pct)
    next
      case True
      let ?rest = "progress_values (fst (progress_loop d t tot lbl es running (overall_pct d ?q t tot)))"
      have eq: "progress_values (fst (progress_loop d t tot lbl (e # es) running lp))
                  = overall_pct d ?q t tot # ?rest"
        using Pct True by (simp del: progress_loop.simps(3) add: loop_Pct)
      have "sorted ?rest" and ge: "\<forall>v \<in> set ?rest. overall_pct d ?q t tot \<le> v"
        using ih [of running "overall_pct d ?q t tot"] by simp_all
      then have "sorted (overall_pct d ?q t tot # ?rest)"
        by simp
      moreover have "\<forall>v \<in> set (overall_pct d ?q t tot # ?rest). overall_pct d lo t tot \<le> v"
        using ge step by fastforce
      ultimately show ?thesis
        by (simp only: eq)
    qed
  qed
qed

lemma loop_upper:
  assumes "0 < tot" and "0 \<le> t"
  shows "samples_le_100 es \<Longrightarrow>
     v \<in> set (progress_values (fst (progress_loop d t tot lbl es running lp)))
       \<Longrightarrow> v \<le> completed_pct (d + of_int t) tot"
proof (induction es arbitrary: running lp)
  case Nil
  then show ?case by simp
next
  case (Cons e es)
  show ?case
  proof (cases e)
    case Stop
    with Cons show ?thesis by simp
  next
    case (Pct p)
    with Cons.prems have "pct_value p \<le> 100" and ok: "samples_le_100 es"
      by simp_all
    then have up: "overall_pct d (pct_value p) t tot \<le> completed_pct (d + of_int t) tot"
      using assms by (simp add: overall_pct_upper)
    from Cons.prems(2) Pct Cons.IH [OF ok] up show ?thesis
      by (auto simp del: progress_loop.simps(3) simp add: loop_Pct split: if_splits)
  qed
qed

lemma samples_ok_le_100: "samples_ok lo es \<Longrightarrow> samples_le_100 es"
proof (induction es arbitrary: lo)
  case (Cons e es)
  then show ?case
    by (cases e) auto
qed simp

subsection \<open>One file of the batch\<close>

lemma probe_keeps_flags:
  "is_running (snd (snd (probe tool f st))) = is_running st"
  "done_duration (snd (snd (probe tool f st))) = done_duration st"
  "progress_values (fst (snd (probe tool f st))) = []"
  by (simp_all add: probe_def Let_def split: option.splits)

lemma convert_file_cases:
  assumes "convert_file cfg w enc mp durs tot idx fl st = (sigs, st')"
    and "L = progress_loop (done_duration st) (durs ! idx) tot (idx + 1, length (files cfg), fl)
               (events (turns w idx)) (is_running st) (- 1)"
  obtains
    (failed) "progress_values sigs = []" "done_duration st' = done_duration st"
      "is_running st' = is_running st"
  | (raised) "ff_raises (turns w idx)" "progress_values sigs = progress_values (fst L)"
      "done_duration st' = done_duration st"
  | (completed) "\<not> ff_raises (turns w idx)" "is_running st'"
      "progress_values sigs =
         progress_values (fst L) @ [completed_pct (done_duration st + of_int (durs ! idx)) tot]"
      "done_duration st' = done_duration st + of_int (durs ! idx)"
  | (stopped) "\<not> is_running st'" "progress_values sigs = progress_values (fst L)"
      "done_duration st' = done_duration st"
proof -
  obtain pinfo psigs st1 where p: "probe (ffprobe w) fl st = (pinfo, psigs, st1)"
    by (cases "probe (ffprobe w) fl st")
  have st1: "is_running st1 = is_running st" "done_duration st1 = done_duration st"
    "progress_values psigs = []"
    using probe_keeps_flags [of "ffprobe w" fl st] p by simp_all
  obtain lsigs r b where l: "L = (lsigs, r, b)"
    by (cases L)
  have rb: "b \<longrightarrow> \<not> r"
    using loop_flags [of "done_duration st" "durs ! idx" tot "(idx + 1, length (files cfg), fl)"
        "events (turns w idx)" "is_running st" "- 1"] l assms(2)
    by simp
  show ?thesis
  proof (cases "makedirs_raises (turns w idx)
      \<or> isl (build_cmd cfg enc mp fl pinfo (out_path (turns w idx)))")
    case True
    then have "sigs = psigs @ [log_message (ErrorConverting fl) ''red''] \<and> st' = st1"
      using assms(1) p
      by (auto simp: convert_file_def Let_def split: sum.splits)
    with st1 show ?thesis
      by (intro failed) (simp_all add: progress_values_append)
  next
    case False
    then obtain cmd where ok: "\<not> makedirs_raises (turns w idx)"
      "build_cmd cfg enc mp fl pinfo (out_path (turns w idx)) = Inr cmd"
      by (cases "build_cmd cfg enc mp fl pinfo (out_path (turns w idx))") auto
    let ?start = "psigs @ [log_message (Converting (basename fl) (basename (out_path (turns w idx)))
                    (if do_stream_copy cfg pinfo then None else Some enc)) ''black'']"
    have l1: "progress_loop (done_duration st1) (durs ! idx) tot (idx + 1, length (files cfg), fl)
               (events (turns w idx)) (is_running st1) (- 1) = (lsigs, r, b)"
      using l assms(2) st1 by simp
    have start: "progress_values ?start = []"
      using st1 by (simp add: progress_values_append)
    consider "\<not> b \<and> ff_raises (turns w idx)" | "\<not> (\<not> b \<and> ff_raises (turns w idx))" "r"
      | "\<not> (\<not> b \<and> ff_raises (turns w idx))" "\<not> r"
      by blast
    then show ?thesis
    proof cases
      case 1
      then have "sigs = ?start @ lsigs @ [log_message (ErrorConverting fl) ''red'']
          \<and> st' = st1\<lparr>is_running := r\<rparr>"
        using assms(1) p ok l1 by (simp add: convert_file_def Let_def)
      with 1 start st1 l show ?thesis
        by (intro raised) (simp_all add: progress_values_append)
    next
      case 2
      have nb: "\<not> b" and nr: "\<not> ff_raises (turns w idx)"
        using 2 rb by blast+
      have "sigs = ?start @ lsigs @
            [progress_updated (completed_pct (done_duration st1 + of_int (durs ! idx)) tot),
             log_message (Completed (out_path (turns w idx))) ''green'']
          \<and> st' = st1\<lparr>is_running := r, done_duration := done_duration st1 + of_int (durs ! idx)\<rparr>"
        using assms(1) p ok l1 nb nr 2(2) by (simp add: convert_file_def Let_def)
      then show ?thesis
        using 2 nr start st1 l by (intro completed) (simp_all add: progress_values_append)
    next
      case 3
      then have "sigs = ?start @ lsigs \<and> st' = st1\<lparr>is_running := r\<rparr>"
        using assms(1) p ok l1 by (auto simp: convert_file_def Let_def split: if_splits)
      with 3 start st1 l show ?thesis
        by (intro stopped) (simp_all add: progress_values_append)
    qed
  qed
qed

lemma convert_file_bounded:
  assumes "convert_file cfg w enc mp durs tot idx fl st = (sigs, st')"
    and "v \<in> set (progress_values sigs)"
  shows "0 \<le> v \<and> v \<le> 100"
proof -
  define L where "L = progress_loop (done_duration st) (durs ! idx) tot (idx + 1, length (files cfg), fl)
               (events (turns w idx)) (is_running st) (- 1)"
  have inner: "0 \<le> u \<and> u \<le> 100" if "u \<in> set (progress_values (fst L))" for u
    using that unfolding L_def by (rule loop_values_bounded)
  have fin: "0 \<le> completed_pct x tot \<and> completed_pct x tot \<le> 100" for x
    unfolding completed_pct_def by (rule clamp_pct_bounds)
  from assms(1) L_def show ?thesis
  proof (cases rule: convert_file_cases)
    case failed
    with assms(2) show ?thesis by simp
  next
    case raised
    with assms(2) inner show ?thesis by simp
  next
    case completed
    with assms(2) inner fin show ?thesis by auto
  next
    case stopped
    with assms(2) inner show ?thesis by simp
  qed
qed

lemma convert_file_sorted:
  assumes "convert_file cfg w enc mp durs tot idx fl st = (sigs, st')"
    and "0 < tot" and "0 \<le> durs ! idx"
    and "samples_ok 0 (events (turns w idx))"
    and "ff_raises (turns w idx) \<longrightarrow> no_samples (events (turns w idx))"
  shows "sorted (progress_values sigs)
       \<and> (\<forall>v \<in> set (progress_values sigs). completed_pct (done_duration st) tot \<le> v)
       \<and> done_duration st \<le> done_duration st'
       \<and> (is_running st' \<longrightarrow>
            (\<forall>v \<in> set (progress_values sigs). v \<le> completed_pct (done_duration st') tot))"
proof -
  define L where "L = progress_loop (done_duration st) (durs ! idx) tot (idx + 1, length (files cfg), fl)
               (events (turns w idx)) (is_running st) (- 1)"
  have srt: "sorted (progress_values (fst L))"
    and lo: "\<forall>u \<in> set (progress_values (fst L)). completed_pct (done_duration st) tot \<le> u"
    using loop_sorted [OF assms(2,3,4), of "done_duration st" "(idx + 1, length (files cfg), fl)" "is_running st" "- 1"]
    unfolding L_def by (simp_all add: overall_pct_completed)
  have up: "\<forall>u \<in> set (progress_values (fst L)).
              u \<le> completed_pct (done_duration st + of_int (durs ! idx)) tot"
    using loop_upper [OF assms(2,3) samples_ok_le_100 [OF assms(4)]]
    unfolding L_def by blast
  have d: "done_duration st \<le> done_duration st + of_int (durs ! idx)"
    using assms(3) by simp
  from assms(1) L_def show ?thesis
  proof (cases rule: convert_file_cases)
    case failed
    then show ?thesis by simp
  next
    case raised
    with assms(5) have "fst L = []"
      unfolding L_def by (simp add: loop_no_samples)
    with raised show ?thesis by simp
  next
    case completed
    have "completed_pct (done_duration st) tot
            \<le> completed_pct (done_duration st + of_int (durs ! idx)) tot"
      using assms(2) d by (rule completed_pct_mono)
    with completed srt lo up d show ?thesis
      by (auto simp: sorted_append)
  next
    case stopped
    with srt lo show ?thesis by simp
  qed
qed


subsection \<open>The batch loop\<close>

lemma run_files_Cons_cases:
  assumes "run_files cfg w enc mp durs tot idx (f # rest) st = (sigs, st')"
  obtains
    (break) "sigs = []" "done_duration st' = done_duration st" "\<not> is_running st'"
  | (missing) sigs' where "is_running st" "\<not> file_exists (turns w idx)"
      "run_files cfg w enc mp durs tot (Suc idx) rest st = (sigs', st')"
      "sigs = log_message (FileNotFound f) ''red'' # sigs'"
  | (convert) sigs1 st1 sigs2 where "is_running st" "file_exists (turns w idx)"
      "convert_file cfg w enc mp durs tot idx f st = (sigs1, st1)"
      "run_files cfg w enc mp durs tot (Suc idx) rest st1 = (sigs2, st')"
      "sigs = sigs1 @ sigs2"
proof (cases "stop_before (turns w idx) \<or> \<not> is_running st")
  case True
  with assms have "sigs = [] \<and> done_duration st' = done_duration st \<and> \<not> is_running st'"
    by (auto simp: Let_def split: if_splits)
  then show ?thesis
    using break by blast
next
  case False
  show ?thesis
  proof (cases "file_exists (turns w idx)")
    case ex: False
    obtain sigs' st'' where r: "run_files cfg w enc mp durs tot (Suc idx) rest st = (sigs', st'')"
      by (cases "run_files cfg w enc mp durs tot (Suc idx) rest st")
    with assms False ex have "sigs = log_message (FileNotFound f) ''red'' # sigs'" "st'' = st'"
      by (simp_all add: Let_def)
    with r False ex show ?thesis
      using missing by blast
  next
    case ex: True
    obtain sigs1 st1 where c: "convert_file cfg w enc mp durs tot idx f st = (sigs1, st1)"
      by (cases "convert_file cfg w enc mp durs tot idx f st")
    obtain sigs2 st2 where r: "run_files cfg w enc mp durs tot (Suc idx) rest st1 = (sigs2, st2)"
      by (cases "run_files cfg w enc mp durs tot (Suc idx) rest st1")
    with assms False ex c have "sigs = sigs1 @ sigs2" "st2 = st'"
      by (simp_all add: Let_def)
    with c r False ex show ?thesis
      using convert by blast
  qed
qed

lemma run_files_not_running:
  "\<not> is_running st \<Longrightarrow> fst (run_files cfg w enc mp durs tot idx fs st) = []"
  by (cases fs) (simp_all add: Let_def)

lemma run_files_bounded:
  "run_files cfg w enc mp durs tot idx fs st = (sigs, st') \<Longrightarrow>
     v \<in> set (progress_values sigs) \<Longrightarrow> 0 \<le> v \<and> v \<le> 100"
proof (induction fs arbitrary: idx st sigs st')
  case Nil
  then show ?case by simp
next
  case (Cons f rest)
  from Cons.prems(1) show ?case
  proof (cases rule: run_files_Cons_cases)
    case break
    with Cons.prems(2) show ?thesis by simp
  next
    case (missing sigs')
    with Cons.prems(2) Cons.IH [OF missing(3)] show ?thesis by simp
  next
    case (convert sigs1 st1 sigs2)
    with Cons.prems(2) have "v \<in> set (progress_values sigs1) \<or> v \<in> set (progress_values sigs2)"
      by (simp add: progress_values_append)
    then show ?thesis
      using convert_file_bounded [OF convert(3)] Cons.IH [OF convert(4)] by blast
  qed
qed

lemma run_files_sorted:
  assumes "0 < tot"
  shows "run_files cfg w enc mp durs tot idx fs st = (sigs, st') \<Longrightarrow>
     (\<And>i. i < idx + length fs \<Longrightarrow>
        0 \<le> durs ! i \<and> samples_ok 0 (events (turns w i))
        \<and> (ff_raises (turns w i) \<longrightarrow> no_samples (events (turns w i)))) \<Longrightarrow>
     sorted (progress_values sigs)
     \<and> (\<forall>v \<in> set (progress_values sigs). completed_pct (done_duration st) tot \<le> v)"
proof (induction fs arbitrary: idx st sigs st')
  case Nil
  then show ?case by simp
next
  case (Cons f rest)
  have hyp: "0 \<le> durs ! i \<and> samples_ok 0 (events (turns w i))
        \<and> (ff_raises (turns w i) \<longrightarrow> no_samples (events (turns w i)))"
    if "i < Suc idx + length rest" for i
    using Cons.prems(2) [of i] that by simp
  from Cons.prems(1) show ?case
  proof (cases rule: run_files_Cons_cases)
    case break
    then show ?thesis by simp
  next
    case (missing sigs')
    with Cons.IH [OF missing(3) hyp] show ?thesis by simp
  next
    case (convert sigs1 st1 sigs2)
    have here: "0 \<le> durs ! idx" "samples_ok 0 (events (turns w idx))"
      "ff_raises (turns w idx) \<longrightarrow> no_samples (events (turns w idx))"
      using Cons.prems(2) [of idx] by simp_all
    note c = convert_file_sorted [OF convert(3) assms here]
    note ih = Cons.IH [OF convert(4) hyp]
    show ?thesis
    proof (cases "is_running st1")
      case False
      then have "sigs2 = []"
        using run_files_not_running [of st1 cfg w enc mp durs tot "Suc idx" rest] convert(4) by simp
      with c convert(5) show ?thesis by simp
    next
      case True
      have mono: "completed_pct (done_duration st) tot \<le> completed_pct (done_duration st1) tot"
        using assms c by (simp add: completed_pct_mono)
      have "\<forall>x \<in> set (progress_values sigs1). \<forall>y \<in> set (progress_values sigs2). x \<le> y"
        using c ih True by fastforce
      moreover have "\<forall>v \<in> set (progress_values sigs2). completed_pct (done_duration st) tot \<le> v"
        using ih mono by fastforce
      ultimately show ?thesis
        using c ih convert(5) by (auto simp: progress_values_append sorted_append)
    qed
  qed
qed


subsection \<open>Target durations and the whole run\<close>

lemma probe_body_nonneg:
  assumes "\<forall>x ss. r = ProbeJson (Some (Num x)) ss \<longrightarrow> 0 \<le> x"
    and "probe_body r = Some info"
  shows "0 \<le> duration info"
  using assms
  by (auto simp: probe_body_def split: ffprobe_result.splits option.splits num_field.splits prod.splits)

lemma probe_nonneg:
  assumes "durations_nonneg w"
    and "\<forall>f info. probe_cache st f = Some info \<longrightarrow> 0 \<le> duration info"
    and "probe (ffprobe w) g st = (p, sigs, st1)"
  shows "0 \<le> duration p \<and> (\<forall>f info. probe_cache st1 f = Some info \<longrightarrow> 0 \<le> duration info)"
proof (cases "probe_cache st g")
  case (Some a)
  with assms show ?thesis
    by (simp add: probe_def)
next
  case None
  show ?thesis
  proof (cases "probe_body (ffprobe w g)")
    case nb: None
    with None assms(2,3) show ?thesis
      by (auto simp: probe_def sentinel_def split: if_splits)
  next
    case (Some info)
    have "\<forall>x ss. ffprobe w g = ProbeJson (Some (Num x)) ss \<longrightarrow> 0 \<le> x"
      using assms(1) by (simp add: durations_nonneg_def)
    then have "0 \<le> duration info"
      using Some by (rule probe_body_nonneg)
    with None Some assms(2,3) show ?thesis
      by (auto simp: probe_def split: if_splits)
  qed
qed

lemma target_duration_nonneg: "0 \<le> duration p \<Longrightarrow> 0 \<le> target_duration cfg f p"
  by (simp add: target_duration_def py_int_def split: option.splits)

lemma build_durations_props:
  "build_durations cfg w fs st = (ds, sigs, st') \<Longrightarrow>
     length ds = length fs \<and> progress_values sigs = [] \<and> is_running st' = is_running st"
proof (induction fs arbitrary: st ds sigs st')
  case Nil
  then show ?case by simp
next
  case (Cons f fs)
  obtain p psigs st1 where p: "probe (ffprobe w) f st = (p, psigs, st1)"
    by (cases "probe (ffprobe w) f st")
  obtain ds' sigs' st2 where r: "build_durations cfg w fs st1 = (ds', sigs', st2)"
    by (cases "build_durations cfg w fs st1")
  from Cons.prems p r have eq: "ds = target_duration cfg f p # ds'" "sigs = psigs @ sigs'" "st' = st2"
    by simp_all
  have "is_running st1 = is_running st" "progress_values psigs = []"
    using probe_keeps_flags [of "ffprobe w" f st] p by simp_all
  with Cons.IH [OF r] eq show ?case
    by (simp add: progress_values_append)
qed

lemma build_durations_nonneg:
  assumes "durations_nonneg w"
  shows "build_durations cfg w fs st = (ds, sigs, st') \<Longrightarrow>
     \<forall>f info. probe_cache st f = Some info \<longrightarrow> 0 \<le> duration info \<Longrightarrow>
     \<forall>d \<in> set ds. 0 \<le> d"
proof (induction fs arbitrary: st ds sigs st')
  case Nil
  then show ?case by simp
next
  case (Cons f fs)
  obtain p psigs st1 where p: "probe (ffprobe w) f st = (p, psigs, st1)"
    by (cases "probe (ffprobe w) f st")
  obtain ds' sigs' st2 where r: "build_durations cfg w fs st1 = (ds', sigs', st2)"
    by (cases "build_durations cfg w fs st1")
  from Cons.prems(1) p r have eq: "ds = target_duration cfg f p # ds'"
    by simp
  note n = probe_nonneg [OF assms Cons.prems(2) p]
  from n have "\<forall>d \<in> set ds'. 0 \<le> d"
    using Cons.IH [OF r] by blast
  with n eq show ?case
    by (simp add: target_duration_nonneg)
qed

lemma total_of_pos: "\<forall>d \<in> set ds. 0 \<le> d \<Longrightarrow> 0 < total_of ds"
  using sum_list_nonneg [of ds] by (auto simp: total_of_def)

lemma run_unfold:
  assumes "build_durations cfg w (files cfg) st = (durs, psigs, st1)"
    and "run_files cfg w (choose_encoder (codec cfg) (available_encoders (enum_encoders w)))
           (map_preset (choose_encoder (codec cfg) (available_encoders (enum_encoders w))) (preset cfg))
           durs (total_of durs) 0 (files cfg) (st1\<lparr>done_duration := 0\<rparr>) = (sigs, st2)"
  shows "progress_values (fst (run cfg w st)) = progress_values sigs"
    and "done_duration (snd (run cfg w st)) = done_duration st2"
  using assms build_durations_props [OF assms(1)]
  by (simp_all add: run_def Let_def progress_values_append)


lemma build_cmd_ok:
  assumes "rate_mode cfg = ''bitrate'' \<longrightarrow> (\<exists>k. bitrate_kbps cfg = Some k \<and> 0 < k)"
  shows "\<exists>cmd. build_cmd cfg enc mp fl pinfo out = Inr cmd"
proof -
  have "\<exists>r. rate_args cfg enc = Inr r"
    using assms by (auto simp: rate_args_def Let_def)
  then show ?thesis
    by (auto simp: build_cmd_def split: prod.splits)
qed

lemma convert_file_clean:
  assumes "is_running st" and "clean_turn (turns w idx)"
    and "probe (ffprobe w) fl st = (pinfo, psigs, st1)"
    and "build_cmd cfg enc mp fl pinfo (out_path (turns w idx)) = Inr cmd"
  shows "convert_file cfg w enc mp durs tot idx fl st =
     (psigs @
      [log_message (Converting (basename fl) (basename (out_path (turns w idx)))
         (if do_stream_copy cfg pinfo then None else Some enc)) ''black''] @
      fst (progress_loop (done_duration st) (durs ! idx) tot (idx + 1, length (files cfg), fl)
             (events (turns w idx)) True (- 1)) @
      [progress_updated (completed_pct (done_duration st + of_int (durs ! idx)) tot),
       log_message (Completed (out_path (turns w idx))) ''green''],
      st1\<lparr>is_running := True, done_duration := done_duration st + of_int (durs ! idx)\<rparr>)"
proof -
  have st1: "is_running st1" "done_duration st1 = done_duration st"
    using probe_keeps_flags [of "ffprobe w" fl st] assms(1,3) by simp_all
  obtain lsigs where l: "progress_loop (done_duration st) (durs ! idx) tot (idx + 1, length (files cfg), fl)
             (events (turns w idx)) True (- 1) = (lsigs, True, False)"
    using loop_clean [of "events (turns w idx)" "done_duration st" "durs ! idx" tot
        "(idx + 1, length (files cfg), fl)" "- 1"] assms(2)
    by (cases "progress_loop (done_duration st) (durs ! idx) tot (idx + 1, length (files cfg), fl)
             (events (turns w idx)) True (- 1)") (simp add: clean_turn_def)
  show ?thesis
    using assms(2,3,4) st1 l
    by (simp add: convert_file_def Let_def clean_turn_def)
qed

lemma probe_body_Num:
  "\<exists>info. probe_body (ProbeJson (Some (Num x)) ss) = Some info \<and> duration info = x"
  by (simp add: probe_body_def split: prod.splits)

lemma py_int_of_int [simp]: "py_int (of_int n) = n"
  by (simp add: py_int_def)



subsection \<open>The example batches\<close>

lemmas run_defs =
  run_def init_state_def probe_def probe_body_def target_duration_def py_int_def total_of_def
  convert_file_def build_cmd_def input_args_def do_stream_copy_def in_vcodec_def desired_vcodec_def
  lower_def rate_args_def audio_args_def overall_pct_def completed_pct_def clamp_pct_def pct_value_def
  choose_encoder_def available_encoders_def map_preset_def is_nvenc_def basename_def Let_def

lemmas example_defs =
  example_cfg_def example_world_def example_turn_def example_probe_def

lemma example_run_signals:
  "fst (run example_cfg example_world init_state) =
     [log_message (SelectedEncoder ''libaom-av1'') ''black'',
      log_message (UsingPreset ''medium'' ''medium'') ''black'',
      log_message (Converting ''a.mp4'' ''out.mkv'' (Some ''libaom-av1'')) ''black'',
      progress_updated 0, per_file_label 1 2 ''a.mp4'' 0,
      progress_updated 33, per_file_label 1 2 ''a.mp4'' 50,
      progress_updated 66, per_file_label 1 2 ''a.mp4'' 100,
      progress_updated 66, log_message (Completed ''/v/out.mkv'') ''green'',
      log_message (Converting ''b.mp4'' ''out.mkv'' (Some ''libaom-av1'')) ''black'',
      progress_updated 66, per_file_label 2 2 ''b.mp4'' 0,
      progress_updated 83, per_file_label 2 2 ''b.mp4'' 50,
      progress_updated 100, per_file_label 2 2 ''b.mp4'' 100,
      progress_updated 100, log_message (Completed ''/v/out.mkv'') ''green'',
      finished]"
  by (simp add: run_defs example_defs)

lemma failing_run_values:
  "progress_values (fst (run example_cfg failing_world init_state)) = [0, 33, 0, 16, 33, 33]"
  by (simp add: run_defs example_defs failing_world_def)



lemma example_world_nonneg:
  "durations_nonneg example_world" "durations_nonneg failing_world" "durations_nonneg missing_world"
  by (auto simp: durations_nonneg_def example_defs failing_world_def missing_world_def split: if_splits)

subsection \<open>Overall progress: claims C1, C2 and C10\<close>

text \<open>
  Claim C1, amended. Every value emitted by \<^verbatim>\<open>progress_updated\<close> in a batch run lies
  between 0 and 100. The emitted sequence never decreases when no probe reports a
  negative duration, the percentages of each transcode never decrease and stay between 0
  and 100, and no transcode that ends by raising has reported a percentage. When a file
  is converted with the flag \<^verbatim>\<open>_is_running\<close> set, nothing raising and no call of
  \<^verbatim>\<open>stop()\<close>, the completed duration grows by the full target duration of the file and
  the signals of the file end with a fresh overall percentage computed from it, followed
  by the completion message.
\<close>

theorem overall_progress_monotone:
  "(\<forall>v \<in> set (progress_values (fst (run cfg w init_state))). 0 \<le> v \<and> v \<le> 100)
   \<and> (durations_nonneg w
        \<and> (\<forall>i < length (files cfg).
              samples_ok 0 (events (turns w i))
              \<and> (ff_raises (turns w i) \<longrightarrow> no_samples (events (turns w i))))
        \<longrightarrow> sorted (progress_values (fst (run cfg w init_state))))
   \<and> (is_running st \<and> clean_turn (turns w idx)
        \<and> build_cmd cfg enc mp fl (fst (probe (ffprobe w) fl st)) (out_path (turns w idx)) = Inr cmd
        \<longrightarrow> done_duration (snd (convert_file cfg w enc mp durs tot idx fl st))
              = done_duration st + of_int (durs ! idx)
            \<and> (\<exists>pre. fst (convert_file cfg w enc mp durs tot idx fl st) =
                  pre @ [progress_updated (completed_pct (done_duration st + of_int (durs ! idx)) tot),
                         log_message (Completed (out_path (turns w idx))) ''green'']))"
proof (intro conjI impI)
  let ?enc = "choose_encoder (codec cfg) (available_encoders (enum_encoders w))"
  let ?mp = "map_preset ?enc (preset cfg)"
  obtain ds psigs st1 where bd: "build_durations cfg w (files cfg) init_state = (ds, psigs, st1)"
    by (cases "build_durations cfg w (files cfg) init_state")
  obtain sigs st2 where rf: "run_files cfg w ?enc ?mp ds (total_of ds) 0 (files cfg)
      (st1\<lparr>done_duration := 0\<rparr>) = (sigs, st2)"
    by (cases "run_files cfg w ?enc ?mp ds (total_of ds) 0 (files cfg) (st1\<lparr>done_duration := 0\<rparr>)")
  have pv: "progress_values (fst (run cfg w init_state)) = progress_values sigs"
    using bd rf by (rule run_unfold)
  show "\<forall>v \<in> set (progress_values (fst (run cfg w init_state))). 0 \<le> v \<and> v \<le> 100"
    using run_files_bounded [OF rf] pv by simp
  {
    assume h: "durations_nonneg w
        \<and> (\<forall>i < length (files cfg).
              samples_ok 0 (events (turns w i))
              \<and> (ff_raises (turns w i) \<longrightarrow> no_samples (events (turns w i))))"
    have "\<forall>f info. probe_cache init_state f = Some info \<longrightarrow> 0 \<le> duration info"
      by (simp add: init_state_def)
    with h bd have nonneg: "\<forall>d \<in> set ds. 0 \<le> d"
      using build_durations_nonneg by blast
    then have tot: "0 < total_of ds"
      by (rule total_of_pos)
    have len: "length ds = length (files cfg)"
      using build_durations_props [OF bd] by simp
    have "0 \<le> ds ! i \<and> samples_ok 0 (events (turns w i))
        \<and> (ff_raises (turns w i) \<longrightarrow> no_samples (events (turns w i)))"
      if "i < 0 + length (files cfg)" for i
      using that h nonneg len by simp
    with run_files_sorted [OF tot rf] have "sorted (progress_values sigs)"
      by blast
    with pv show "sorted (progress_values (fst (run cfg w init_state)))"
      by simp
  }
  {
    assume h: "is_running st \<and> clean_turn (turns w idx)
        \<and> build_cmd cfg enc mp fl (fst (probe (ffprobe w) fl st)) (out_path (turns w idx)) = Inr cmd"
    obtain pinfo qsigs st3 where p: "probe (ffprobe w) fl st = (pinfo, qsigs, st3)"
      by (cases "probe (ffprobe w) fl st")
    with h have b: "build_cmd cfg enc mp fl pinfo (out_path (turns w idx)) = Inr cmd"
      by simp
    note c = convert_file_clean [OF _ _ p b, where durs = durs and tot = tot]
    from h c show "done_duration (snd (convert_file cfg w enc mp durs tot idx fl st))
              = done_duration st + of_int (durs ! idx)"
      by simp
    from h c show "\<exists>pre. fst (convert_file cfg w enc mp durs tot idx fl st) =
                  pre @ [progress_updated (completed_pct (done_duration st + of_int (durs ! idx)) tot),
                         log_message (Completed (out_path (turns w idx))) ''green'']"
      by (metis append.assoc fst_conv)
  }
qed

theorem overall_progress_monotone_witness:
  "durations_nonneg example_world
   \<and> samples_ok 0 (events example_turn) \<and> \<not> ff_raises example_turn
   \<and> progress_values (fst (run example_cfg example_world init_state)) = [0, 33, 66, 66, 66, 83, 100, 100]
   \<and> sorted (progress_values (fst (run example_cfg example_world init_state)))
   \<and> is_running init_state \<and> clean_turn example_turn
   \<and> done_duration (snd (convert_file example_cfg example_world ''libaom-av1'' ''medium''
         [100, 50] 150 0 ''/v/a.mp4'' init_state)) = 100"
proof -
  have hyp: "\<forall>i < length (files example_cfg).
              samples_ok 0 (events (turns example_world i))
              \<and> (ff_raises (turns example_world i) \<longrightarrow> no_samples (events (turns example_world i)))"
    by (simp add: example_defs pct_value_def)
  have t: "samples_ok 0 (events example_turn)" "\<not> ff_raises example_turn" "clean_turn example_turn"
    "is_running init_state" "turns example_world 0 = example_turn"
    by (simp_all add: example_defs pct_value_def clean_turn_def init_state_def)
  have b: "\<exists>cmd. build_cmd example_cfg ''libaom-av1'' ''medium'' ''/v/a.mp4''
             (fst (probe (ffprobe example_world) ''/v/a.mp4'' init_state))
             (out_path (turns example_world 0)) = Inr cmd"
    by (rule build_cmd_ok) (simp add: example_cfg_def)
  then obtain cmd where cmd: "build_cmd example_cfg ''libaom-av1'' ''medium'' ''/v/a.mp4''
             (fst (probe (ffprobe example_world) ''/v/a.mp4'' init_state))
             (out_path (turns example_world 0)) = Inr cmd"
    by blast
  have v: "progress_values (fst (run example_cfg example_world init_state))
             = [0, 33, 66, 66, 66, 83, 100, 100]"
    by (simp add: example_run_signals)
  show ?thesis
    using example_world_nonneg(1) hyp t cmd v
      overall_progress_monotone [where cfg = example_cfg and w = example_world and st = init_state
        and idx = 0 and enc = "''libaom-av1''" and mp = "''medium''" and fl = "''/v/a.mp4''"
        and cmd = cmd and durs = "[100, 50]" and tot = 150]
    by (simp add: init_state_def)
qed

text \<open>
  The claim as stated fails for a batch in which a transcode exits with an error after
  reporting progress: the completed duration is not advanced, and the next file starts
  again from the old base. The percentages of both files are well behaved here.
\<close>

theorem overall_progress_monotone_counterexample:
  "samples_ok 0 (events (turns failing_world 0)) \<and> samples_ok 0 (events (turns failing_world 1))
   \<and> ff_raises (turns failing_world 0)
   \<and> progress_values (fst (run example_cfg failing_world init_state)) = [0, 33, 0, 16, 33, 33]
   \<and> \<not> sorted (progress_values (fst (run example_cfg failing_world init_state)))"
  by (simp add: failing_run_values) (simp add: failing_world_def example_defs pct_value_def)

lemma completed_pct_100_150: "completed_pct 100 150 = 66"
  by (simp add: completed_pct_def clamp_pct_def py_int_def)

lemma completed_pct_150_150: "completed_pct 150 150 = 100"
  by (simp add: completed_pct_def clamp_pct_def py_int_def)

text \<open>
  Claim C2, amended. For a batch of two files probed at 100 and 50 seconds, without crop
  ranges, both converted without error or cancellation, the target durations are 100 and
  50, the total is 150, and the emitted values are those of the first file's progress
  loop, then 66 on its completion, then those of the second file's progress loop, then
  100 at the end of the batch: \<^verbatim>\<open>int()\<close> truncates 66.67 to 66.
\<close>

theorem two_file_batch:
  assumes "files cfg = [a, b]"
    and "crop_settings cfg a = None" and "crop_settings cfg b = None"
    and "ffprobe w a = ProbeJson (Some (Num 100)) sa"
    and "ffprobe w b = ProbeJson (Some (Num 50)) sb"
    and "clean_turn (turns w 0)" and "clean_turn (turns w 1)"
    and "rate_mode cfg = ''bitrate'' \<longrightarrow> (\<exists>k. bitrate_kbps cfg = Some k \<and> 0 < k)"
  shows "fst (build_durations cfg w (files cfg) init_state) = [100, 50]
       \<and> total_of (fst (build_durations cfg w (files cfg) init_state)) = 150
       \<and> progress_values (fst (run cfg w init_state)) =
           progress_values (fst (progress_loop 0 100 150 (1, 2, a) (events (turns w 0)) True (- 1)))
           @ [66]
           @ progress_values (fst (progress_loop 100 50 150 (2, 2, b) (events (turns w 1)) True (- 1)))
           @ [100]"
proof -
  let ?enc = "choose_encoder (codec cfg) (available_encoders (enum_encoders w))"
  let ?mp = "map_preset ?enc (preset cfg)"
  have ab: "a \<noteq> b"
    using assms(4,5) by auto
  obtain ia where ia: "probe_body (ffprobe w a) = Some ia" "duration ia = 100"
    using probe_body_Num [of 100 sa] assms(4) by auto
  obtain ib where ib: "probe_body (ffprobe w b) = Some ib" "duration ib = 50"
    using probe_body_Num [of 50 sb] assms(5) by auto
  let ?s2 = "init_state\<lparr>probe_calls := [a, b], probe_cache := [a \<mapsto> ia, b \<mapsto> ib]\<rparr>"
  have ta: "target_duration cfg a ia = 100" and tb: "target_duration cfg b ib = 50"
    using assms(2,3) ia ib by (simp_all add: target_duration_def py_int_def)
  have bd: "build_durations cfg w (files cfg) init_state = ([100, 50], [], ?s2)"
    using assms(1) ab ia ib ta tb by (simp add: probe_def init_state_def)
  have tot: "total_of [100, 50] = 150"
    by (simp add: total_of_def)
  let ?st0 = "?s2\<lparr>done_duration := 0\<rparr>"
  have pa: "probe (ffprobe w) a ?st0 = (ia, [], ?st0)"
    using ab by (intro probe_cached) simp
  obtain ca where ca: "build_cmd cfg ?enc ?mp a ia (out_path (turns w 0)) = Inr ca"
    using build_cmd_ok [OF assms(8)] by blast
  have run0: "is_running ?st0"
    by (simp add: init_state_def)
  note c0 = convert_file_clean [OF run0 assms(6) pa ca, where durs = "[100, 50]" and tot = 150]
  let ?st1 = "?st0\<lparr>is_running := True, done_duration := 100\<rparr>"
  have pb: "probe (ffprobe w) b ?st1 = (ib, [], ?st1)"
    by (intro probe_cached) simp
  obtain cb where cb: "build_cmd cfg ?enc ?mp b ib (out_path (turns w 1)) = Inr cb"
    using build_cmd_ok [OF assms(8)] by blast
  have run1: "is_running ?st1"
    by simp
  note c1 = convert_file_clean [OF run1 assms(7) pb cb, where durs = "[100, 50]" and tot = 150]
  have s0: "\<not> stop_before (turns w 0)" "file_exists (turns w 0)"
    and s1: "\<not> stop_before (turns w 1)" "file_exists (turns w 1)"
    using assms(6,7) by (simp_all add: clean_turn_def)
  obtain sigs st2 where rf: "run_files cfg w ?enc ?mp [100, 50] 150 0 [a, b] ?st0 = (sigs, st2)"
    by (cases "run_files cfg w ?enc ?mp [100, 50] 150 0 [a, b] ?st0")
  have "progress_values sigs =
           progress_values (fst (progress_loop 0 100 150 (1, 2, a) (events (turns w 0)) True (- 1)))
           @ [66]
           @ progress_values (fst (progress_loop 100 50 150 (2, 2, b) (events (turns w 1)) True (- 1)))
           @ [100]"
    using rf c0 c1 s0 s1 assms(1) run0
    by (auto simp: Let_def progress_values_append completed_pct_100_150 completed_pct_150_150
          numeral_2_eq_2)
  moreover have "progress_values (fst (run cfg w init_state)) = progress_values sigs"
    using bd rf tot assms(1) run_unfold(1) [of cfg w init_state "[100, 50]" "[]" ?s2 sigs st2]
    by simp
  ultimately show ?thesis
    using bd tot by simp
qed

theorem two_file_batch_witness:
  "files example_cfg = [''/v/a.mp4'', ''/v/b.mp4'']
   \<and> crop_settings example_cfg ''/v/a.mp4'' = None \<and> crop_settings example_cfg ''/v/b.mp4'' = None
   \<and> ffprobe example_world ''/v/a.mp4'' = ProbeJson (Some (Num 100)) []
   \<and> ffprobe example_world ''/v/b.mp4'' = ProbeJson (Some (Num 50)) []
   \<and> clean_turn (turns example_world 0) \<and> clean_turn (turns example_world 1)
   \<and> rate_mode example_cfg \<noteq> ''bitrate''
   \<and> total_of (fst (build_durations example_cfg example_world (files example_cfg) init_state)) = 150
   \<and> progress_values (fst (run example_cfg example_world init_state))
        = [0, 33, 66] @ [66] @ [66, 83, 100] @ [100]"
proof -
  have h: "files example_cfg = [''/v/a.mp4'', ''/v/b.mp4'']"
    "crop_settings example_cfg ''/v/a.mp4'' = None" "crop_settings example_cfg ''/v/b.mp4'' = None"
    "ffprobe example_world ''/v/a.mp4'' = ProbeJson (Some (Num 100)) []"
    "ffprobe example_world ''/v/b.mp4'' = ProbeJson (Some (Num 50)) []"
    "clean_turn (turns example_world 0)" "clean_turn (turns example_world 1)"
    by (simp_all add: example_defs clean_turn_def)
  have r: "rate_mode example_cfg \<noteq> ''bitrate''"
    by (simp add: example_cfg_def)
  then have r': "rate_mode example_cfg = ''bitrate'' \<longrightarrow> (\<exists>k. bitrate_kbps example_cfg = Some k \<and> 0 < k)"
    by simp
  have l: "progress_values (fst (progress_loop 0 100 150 (1, 2, ''/v/a.mp4'')
             (events (turns example_world 0)) True (- 1))) = [0, 33, 66]"
    "progress_values (fst (progress_loop 100 50 150 (2, 2, ''/v/b.mp4'')
             (events (turns example_world 1)) True (- 1))) = [66, 83, 100]"
    by (simp_all add: example_defs overall_pct_def clamp_pct_def py_int_def pct_value_def Let_def)
  note tb = two_file_batch [OF h r']
  have tot: "total_of (fst (build_durations example_cfg example_world (files example_cfg) init_state)) = 150"
    using tb by (rule conjunct2 [THEN conjunct1])
  have "progress_values (fst (run example_cfg example_world init_state))
        = [0, 33, 66] @ [66] @ [66, 83, 100] @ [100]"
    using tb [THEN conjunct2, THEN conjunct2] l by simp
  with h r tot show ?thesis
    by (intro conjI) (assumption+)
qed

text \<open>
  The claim as stated asks for 67 on the first completion. In the example batch the value
  emitted right before the first completion message, and before the second file starts,
  is 66, and 67 is never emitted.
\<close>

theorem two_file_batch_counterexample:
  "fst (run example_cfg example_world init_state) =
     [log_message (SelectedEncoder ''libaom-av1'') ''black'',
      log_message (UsingPreset ''medium'' ''medium'') ''black'',
      log_message (Converting ''a.mp4'' ''out.mkv'' (Some ''libaom-av1'')) ''black'',
      progress_updated 0, per_file_label 1 2 ''a.mp4'' 0,
      progress_updated 33, per_file_label 1 2 ''a.mp4'' 50,
      progress_updated 66, per_file_label 1 2 ''a.mp4'' 100,
      progress_updated 66, log_message (Completed ''/v/out.mkv'') ''green'',
      log_message (Converting ''b.mp4'' ''out.mkv'' (Some ''libaom-av1'')) ''black'',
      progress_updated 66, per_file_label 2 2 ''b.mp4'' 0,
      progress_updated 83, per_file_label 2 2 ''b.mp4'' 50,
      progress_updated 100, per_file_label 2 2 ''b.mp4'' 100,
      progress_updated 100, log_message (Completed ''/v/out.mkv'') ''green'',
      finished]
   \<and> progress_updated 67 \<notin> set (fst (run example_cfg example_world init_state))"
  by (simp add: example_run_signals)




end
